theory Spec2Isabelle
  imports Main
begin

section \<open>Values, effects and the environment\<close>

text \<open>
  Values decoded from JSON, as Python's \<open>json\<close> module produces them: \<open>None\<close>, \<open>bool\<close>,
  \<open>int\<close>, \<open>float\<close> (\<open>JFloat m e\<close> stands for \<open>m * 2 ^ e\<close>), \<open>str\<close>, \<open>list\<close> and \<open>dict\<close>
  (an association list, looked up with \<open>map_of\<close>).
\<close>

datatype json =
    JNull
  | JBool bool
  | JInt int
  | JFloat int int
  | JStr string
  | JArr "json list"
  | JObj "(string \<times> json) list"

text \<open>
  The exceptions the program can meet, by the class the \<open>except\<close> clauses tell apart:
  \<open>ConnectionError\<close>, \<open>HTTPError\<close> and \<open>RequestsJSONDecodeError\<close> are subclasses of
  \<open>requests.exceptions.RequestException\<close>, the others are not.
\<close>

datatype exn =
    ConnectionError
  | HTTPError int
  | RequestsJSONDecodeError
  | JSONDecodeError
  | OverflowError
  | TypeError
  | KeyError
  | OSError

fun is_request_exception :: "exn \<Rightarrow> bool" where
  "is_request_exception ConnectionError = True"
| "is_request_exception (HTTPError _) = True"
| "is_request_exception RequestsJSONDecodeError = True"
| "is_request_exception _ = False"

text \<open>
  One constructor for every \<open>print\<close> statement of the program, carrying the values the
  statement interpolates. Durations are in microseconds.
\<close>

datatype message =
    RateSecondWait int
  | RateMinuteWait int
  | RateDayWait int
  | CredentialsNotFound
  | CredentialsIncomplete
  | RequestingToken
  | TokenObtained
  | AccessTokenMissing
  | AccessTokenResponse json
  | ErrorGeneratingToken exn
  | NoAdvisoriesFound
  | ProcessingAdvisories nat
  | SavedAdvisory string
  | SkippingAdvisory json
  | InvalidMode
  | RequestingAdvisories string
  | Error403
  | ResponseType json
  | UnexpectedFormat json
  | UnexpectedFormatDump json
  | ErrorRetrieving exn
  | UnexpectedError exn
  | NoTokenProvided
  | FailedToObtainToken
  | InitialAttemptFailed
  | RetryingDownload
  | CannotRetry

text \<open>
  The trace of effects. \<open>Enter_download_csaf\<close> and \<open>Enter_get_new_token\<close> record the entry
  into the two functions, so that the number of calls can be read off the trace; every
  other event is an effect on the outside world.
\<close>

datatype event =
    Print message
  | Sleep int
  | Makedirs string
  | WriteFile string json
  | HttpGet string json
  | HttpPost string json json
  | Traceback exn
  | Enter_download_csaf json
  | Enter_get_new_token

datatype http_result = ConnectionFailed | Response int "json option"

datatype node = Dir | File "json option"

text \<open>
  The environment. \<open>clock k\<close> is the value the \<open>k\<close>-th call of \<open>datetime.now()\<close> returns, in
  microseconds since 0001-01-01 00:00:00 (the resolution and origin of Python's
  \<open>datetime\<close>); \<open>get_script k\<close> and \<open>post_script k\<close> are the outcomes of the \<open>k\<close>-th
  \<open>requests.get\<close> and \<open>requests.post\<close>; a response body of \<open>None\<close> is one that
  \<open>response.json()\<close> cannot decode, and \<open>json_error_is_request_exception\<close> tells whether
  the installed \<open>requests\<close> raises its own \<open>JSONDecodeError\<close> (a \<open>RequestException\<close>) then.
  \<open>fs\<close> maps a path to what is there (a file holds a JSON document, or \<open>None\<close> for
  anything else); \<open>makedirs_fails\<close> and \<open>open_fails\<close> say where the operating system
  refuses \<open>os.makedirs\<close> and \<open>open\<close>. \<open>py_repr\<close> is what Python's \<open>str()\<close> makes of a
  value that is not a string.
\<close>

record world =
  clock :: "nat \<Rightarrow> int"
  reads :: nat
  get_script :: "nat \<Rightarrow> http_result"
  gets :: nat
  post_script :: "nat \<Rightarrow> http_result"
  posts :: nat
  json_error_is_request_exception :: bool
  fs :: "string \<Rightarrow> node option"
  makedirs_fails :: "string \<Rightarrow> bool"
  open_fails :: "string \<Rightarrow> bool"
  py_repr :: "json \<Rightarrow> string"
  events :: "event list"

definition emit :: "event \<Rightarrow> world \<Rightarrow> world" where
  "emit e w = w\<lparr>events := events w @ [e]\<rparr>"

definition datetime_now :: "world \<Rightarrow> int \<times> world" where
  "datetime_now w = (clock w (reads w), w\<lparr>reads := Suc (reads w)\<rparr>)"

definition time_sleep :: "int \<Rightarrow> world \<Rightarrow> world" where
  "time_sleep d w = emit (Sleep d) w"

section \<open>RateLimiter\<close>

record rate_limiter =
  second_timestamp :: int
  second_counter :: int
  minute_timestamp :: int
  minute_counter :: int
  day_timestamp :: int
  day_counter :: int

text \<open>The limits are assigned once in \<open>__init__\<close> and never written again.\<close>

definition SECOND_LIMIT :: int where "SECOND_LIMIT = 5"
definition MINUTE_LIMIT :: int where "MINUTE_LIMIT = 30"
definition DAY_LIMIT :: int where "DAY_LIMIT = 5000"

text \<open>One second, sixty seconds and 86400 seconds, in microseconds.\<close>

definition SECOND_US :: int where "SECOND_US = 1000000"
definition MINUTE_US :: int where "MINUTE_US = 60000000"
definition DAY_US :: int where "DAY_US = 86400000000"

definition RateLimiter_init :: "world \<Rightarrow> rate_limiter \<times> world" where
  "RateLimiter_init w =
     (let (t1, w1) = datetime_now w;
          (t2, w2) = datetime_now w1;
          (t3, w3) = datetime_now w2
      in (\<lparr>second_timestamp = t1, second_counter = 0,
           minute_timestamp = t2, minute_counter = 0,
           day_timestamp = t3, day_counter = 0\<rparr>, w3))"

text \<open>\<open>wait_if_needed\<close>, first part: reset counters if time periods have elapsed.\<close>

definition reset_elapsed :: "int \<Rightarrow> rate_limiter \<Rightarrow> rate_limiter" where
  "reset_elapsed current_time rl =
     (let rl1 = (if current_time - second_timestamp rl \<ge> SECOND_US
                 then rl\<lparr>second_counter := 0, second_timestamp := current_time\<rparr> else rl);
          rl2 = (if current_time - minute_timestamp rl1 \<ge> MINUTE_US
                 then rl1\<lparr>minute_counter := 0, minute_timestamp := current_time\<rparr> else rl1);
          rl3 = (if current_time - day_timestamp rl2 \<ge> DAY_US
                 then rl2\<lparr>day_counter := 0, day_timestamp := current_time\<rparr> else rl2)
      in rl3)"

text \<open>\<open>wait_if_needed\<close>, the three checks, in the order of the source.\<close>

definition check_second :: "int \<Rightarrow> rate_limiter \<times> world \<Rightarrow> rate_limiter \<times> world" where
  "check_second current_time s =
     (case s of (rl, w) \<Rightarrow>
        if second_counter rl \<ge> SECOND_LIMIT then
          (let sleep_time = SECOND_US - (current_time - second_timestamp rl) in
           if sleep_time > 0 then
             (let w1 = emit (Print (RateSecondWait sleep_time)) w;
                  w2 = time_sleep sleep_time w1;
                  (t, w3) = datetime_now w2
              in (rl\<lparr>second_counter := 0, second_timestamp := t\<rparr>, w3))
           else (rl, w))
        else (rl, w))"

definition check_minute :: "int \<Rightarrow> rate_limiter \<times> world \<Rightarrow> rate_limiter \<times> world" where
  "check_minute current_time s =
     (case s of (rl, w) \<Rightarrow>
        if minute_counter rl \<ge> MINUTE_LIMIT then
          (let sleep_time = MINUTE_US - (current_time - minute_timestamp rl) in
           if sleep_time > 0 then
             (let w1 = emit (Print (RateMinuteWait sleep_time)) w;
                  w2 = time_sleep sleep_time w1;
                  (t, w3) = datetime_now w2
              in (rl\<lparr>minute_counter := 0, minute_timestamp := t\<rparr>, w3))
           else (rl, w))
        else (rl, w))"

definition check_day :: "int \<Rightarrow> rate_limiter \<times> world \<Rightarrow> rate_limiter \<times> world" where
  "check_day current_time s =
     (case s of (rl, w) \<Rightarrow>
        if day_counter rl \<ge> DAY_LIMIT then
          (let sleep_time = DAY_US - (current_time - day_timestamp rl) in
           if sleep_time > 0 then
             (let w1 = emit (Print (RateDayWait sleep_time)) w;
                  w2 = time_sleep sleep_time w1;
                  (t, w3) = datetime_now w2
              in (rl\<lparr>day_counter := 0, day_timestamp := t\<rparr>, w3))
           else (rl, w))
        else (rl, w))"

definition wait_if_needed :: "rate_limiter \<Rightarrow> world \<Rightarrow> rate_limiter \<times> world" where
  "wait_if_needed rl w =
     (let (current_time, w0) = datetime_now w
      in check_day current_time
           (check_minute current_time
              (check_second current_time (reset_elapsed current_time rl, w0))))"

definition increment :: "rate_limiter \<Rightarrow> rate_limiter" where
  "increment rl = rl\<lparr>second_counter := second_counter rl + 1,
                     minute_counter := minute_counter rl + 1,
                     day_counter := day_counter rl + 1\<rparr>"

text \<open>Sequences of calls on one instance.\<close>

datatype rl_op = Admit | Record

fun run_op :: "rl_op \<Rightarrow> rate_limiter \<times> world \<Rightarrow> rate_limiter \<times> world" where
  "run_op Admit (rl, w) = wait_if_needed rl w"
| "run_op Record (rl, w) = (increment rl, w)"

fun run_ops :: "rl_op list \<Rightarrow> rate_limiter \<times> world \<Rightarrow> rate_limiter \<times> world" where
  "run_ops [] s = s"
| "run_ops (x # xs) s = run_ops xs (run_op x s)"

text \<open>
  \<open>api_calls n\<close> is \<open>n\<close> calls made back to back on one instance, each a
  \<open>wait_if_needed\<close> followed by an \<open>increment\<close>, as \<open>download_csaf\<close> makes them. It
  returns the time each call was let through: the last value \<open>datetime.now()\<close> returned
  before \<open>wait_if_needed\<close> came back.
\<close>

definition last_now :: "world \<Rightarrow> int" where
  "last_now w = clock w (reads w - 1)"

fun api_calls :: "nat \<Rightarrow> rate_limiter \<times> world \<Rightarrow> int list \<times> rate_limiter \<times> world" where
  "api_calls 0 s = ([], s)"
| "api_calls (Suc n) (rl, w) =
     (let (rl1, w1) = wait_if_needed rl w;
          t = last_now w1;
          (ts, s') = api_calls n (increment rl1, w1)
      in (t # ts, s'))"

text \<open>The number of calls let through in the window of \<open>duration\<close> that starts at \<open>start\<close>.\<close>

definition calls_in_window :: "int \<Rightarrow> int \<Rightarrow> int list \<Rightarrow> nat" where
  "calls_in_window start duration ts =
     length (filter (\<lambda>t. start \<le> t \<and> t < start + duration) ts)"

definition counters_nonneg :: "rate_limiter \<Rightarrow> bool" where
  "counters_nonneg rl =
     (0 \<le> second_counter rl \<and> 0 \<le> minute_counter rl \<and> 0 \<le> day_counter rl)"

definition within_limits :: "rate_limiter \<Rightarrow> bool" where
  "within_limits rl =
     (second_counter rl \<le> SECOND_LIMIT \<and> minute_counter rl \<le> MINUTE_LIMIT \<and>
      day_counter rl \<le> DAY_LIMIT)"

text \<open>
  What the specification says one window does when its count has reached the limit and
  the sleep time is positive: announce the wait and sleep for the sleep time; and the
  number of times the clock is read again for it.
\<close>

definition wait_events :: "(int \<Rightarrow> message) \<Rightarrow> int \<Rightarrow> int \<Rightarrow> int \<Rightarrow> event list" where
  "wait_events msg limit count sleep_time =
     (if limit \<le> count \<and> 0 < sleep_time then [Print (msg sleep_time), Sleep sleep_time] else [])"

definition wait_reads :: "int \<Rightarrow> int \<Rightarrow> int \<Rightarrow> nat" where
  "wait_reads limit count sleep_time = (if limit \<le> count \<and> 0 < sleep_time then 1 else 0)"

subsection \<open>Concrete runs of the limiter\<close>

text \<open>
  A clock that starts at 2024-03-10 12:00:00. The limiter is created there; five calls
  follow 0.90 s to 0.98 s later and five more 1.00 s to 1.08 s later, 20 ms apart.
\<close>

definition burst_t0 :: int where "burst_t0 = 63845668800000000"

definition burst_clock :: "nat \<Rightarrow> int" where
  "burst_clock k = burst_t0 +
     (if k < 3 then int k
      else if k < 8 then 900000 + 20000 * int (k - 3)
      else 1000000 + 20000 * int (k - 8))"

definition quiet_world :: world where
  "quiet_world = \<lparr>clock = burst_clock, reads = 0,
     get_script = (\<lambda>_. ConnectionFailed), gets = 0,
     post_script = (\<lambda>_. ConnectionFailed), posts = 0,
     json_error_is_request_exception = True,
     fs = (\<lambda>_. None), makedirs_fails = (\<lambda>_. False), open_fails = (\<lambda>_. False),
     py_repr = (\<lambda>_. ''?''), events = []\<rparr>"

text \<open>
  A limiter whose three windows are all full: the second window began 0.4 s before the
  call, the minute window 61 s before it and the day window one hour before it.
\<close>

definition full_clock :: "nat \<Rightarrow> int" where
  "full_clock k = burst_t0 +
     (if k = 0 then 400000 else if k = 1 then 1000050 else 82801000100)"

definition full_rl :: rate_limiter where
  "full_rl = \<lparr>second_timestamp = burst_t0, second_counter = 5,
     minute_timestamp = burst_t0 - 60600000, minute_counter = 30,
     day_timestamp = burst_t0 - 3599600000, day_counter = 5000\<rparr>"

definition full_world :: world where
  "full_world = quiet_world\<lparr>clock := full_clock\<rparr>"

subsection \<open>Counting periods\<close>

text \<open>
  The log of \<open>n\<close> calls made back to back: for each call the time it was let through
  and the limiter as \<open>wait_if_needed\<close> left it, whose window starts name the counting
  periods in which the \<open>increment\<close> that follows records the call.
\<close>

fun api_log :: "nat \<Rightarrow> rate_limiter \<times> world \<Rightarrow> (int \<times> rate_limiter) list" where
  "api_log 0 s = []"
| "api_log (Suc n) (rl, w) =
     (let (rl1, w1) = wait_if_needed rl w
      in (last_now w1, rl1) # api_log n (increment rl1, w1))"

text \<open>The number of calls recorded in the counting period of a window that starts at \<open>s\<close>.\<close>

definition calls_in_period :: "(rate_limiter \<Rightarrow> int) \<Rightarrow> int \<Rightarrow> (int \<times> rate_limiter) list \<Rightarrow> nat" where
  "calls_in_period start s log = length (filter (\<lambda>c. start (snd c) = s) log)"

text \<open>Successive values are equal or at least \<open>D\<close> apart.\<close>

fun steps_by :: "int \<Rightarrow> int list \<Rightarrow> bool" where
  "steps_by D [] = True"
| "steps_by D [x] = True"
| "steps_by D (x # y # zs) = ((y = x \<or> x + D \<le> y) \<and> steps_by D (y # zs))"

text \<open>
  A clock that honours the sleeps: between two worlds, the time that passes by the clock
  (from the last reading before to the last reading after) is at least the time the
  program has slept in between, as the trace records it. \<open>admit_honest\<close> asks this of
  each of the three checks of one \<open>wait_if_needed\<close>, \<open>honest_run\<close> of every call of a run.
\<close>

fun total_sleep :: "event list \<Rightarrow> int" where
  "total_sleep [] = 0"
| "total_sleep (Sleep d # es) = d + total_sleep es"
| "total_sleep (_ # es) = total_sleep es"

definition slept :: "world \<Rightarrow> world \<Rightarrow> int" where
  "slept w w' = total_sleep (drop (length (events w)) (events w'))"

definition honest :: "world \<Rightarrow> world \<Rightarrow> bool" where
  "honest w w' = (last_now w + slept w w' \<le> last_now w')"

definition admit_honest :: "rate_limiter \<Rightarrow> world \<Rightarrow> bool" where
  "admit_honest rl w =
     (let (current_time, w0) = datetime_now w;
          s0 = (reset_elapsed current_time rl, w0);
          s1 = check_second current_time s0;
          s2 = check_minute current_time s1;
          s3 = check_day current_time s2
      in honest w0 (snd s1) \<and> honest (snd s1) (snd s2) \<and> honest (snd s2) (snd s3))"

fun honest_run :: "nat \<Rightarrow> rate_limiter \<times> world \<Rightarrow> bool" where
  "honest_run 0 s = True"
| "honest_run (Suc n) (rl, w) =
     (admit_honest rl w \<and>
      (let (rl1, w1) = wait_if_needed rl w in honest_run n (increment rl1, w1)))"

text \<open>A call is let through no earlier than the start of each period that records it.\<close>

definition after_start :: "int \<times> rate_limiter \<Rightarrow> bool" where
  "after_start c =
     (second_timestamp (snd c) \<le> fst c \<and> minute_timestamp (snd c) \<le> fst c \<and>
      day_timestamp (snd c) \<le> fst c)"

text \<open>
  A clock on which the limiter is created at 12:00:00 and read every 0.1 s; the sixth
  call finds the second window full after 0.8 s, sleeps 0.2 s, and the clock reads
  12:00:01.30 when it wakes.
\<close>

definition paced_clock :: "nat \<Rightarrow> int" where
  "paced_clock k = burst_t0 + (if k < 9 then 100000 * int k else 400020 + 100000 * int k)"

definition paced_world :: world where
  "paced_world = quiet_world\<lparr>clock := paced_clock\<rparr>"

text \<open>
  Used in the proofs: one window seen as its start and its count. A period_step of
  \<open>wait_if_needed\<close> keeps both, the count being below the limit, or moves the start by at
  least the duration and sets the count to 0; a period_chain of steps, each followed by an
  \<open>increment\<close>; and the window at the end of a period_chain.
\<close>

definition period_step :: "int \<Rightarrow> int \<Rightarrow> int \<times> int \<Rightarrow> int \<times> int \<Rightarrow> bool" where
  "period_step D L p q = ((fst q = fst p \<and> snd q = snd p \<and> snd q < L) \<or> (fst p + D \<le> fst q \<and> snd q = 0))"

fun period_chain :: "int \<Rightarrow> int \<Rightarrow> int \<times> int \<Rightarrow> (int \<times> int) list \<Rightarrow> bool" where
  "period_chain D L p [] = True"
| "period_chain D L p (x # xs) = (period_step D L p x \<and> period_chain D L (fst x, snd x + 1) xs)"

fun period_final :: "int \<times> int \<Rightarrow> (int \<times> int) list \<Rightarrow> int \<times> int" where
  "period_final p [] = p"
| "period_final p (x # xs) = period_final (fst x, snd x + 1) xs"

definition not_future :: "rate_limiter \<Rightarrow> world \<Rightarrow> bool" where
  "not_future rl w =
     (0 < reads w \<and> second_timestamp rl \<le> last_now w \<and> minute_timestamp rl \<le> last_now w \<and>
      day_timestamp rl \<le> last_now w)"

section \<open>The Python operations the program uses\<close>

text \<open>Truth value of a decoded value (\<open>if not advisories\<close>, \<open>if new_token\<close>).\<close>

fun truthy :: "json \<Rightarrow> bool" where
  "truthy JNull = False"
| "truthy (JBool b) = b"
| "truthy (JInt n) = (n \<noteq> 0)"
| "truthy (JFloat m e) = (m \<noteq> 0)"
| "truthy (JStr s) = (s \<noteq> [])"
| "truthy (JArr xs) = (xs \<noteq> [])"
| "truthy (JObj kvs) = (kvs \<noteq> [])"

text \<open>\<open>len(v)\<close> and iteration over \<open>v\<close>: a dict yields its keys, a string its characters.\<close>

fun py_len :: "json \<Rightarrow> exn + nat" where
  "py_len (JStr s) = Inr (length s)"
| "py_len (JArr xs) = Inr (length xs)"
| "py_len (JObj kvs) = Inr (length kvs)"
| "py_len _ = Inl TypeError"

fun py_iter :: "json \<Rightarrow> exn + json list" where
  "py_iter (JStr s) = Inr (map (\<lambda>c. JStr [c]) s)"
| "py_iter (JArr xs) = Inr xs"
| "py_iter (JObj kvs) = Inr (map (\<lambda>kv. JStr (fst kv)) kvs)"
| "py_iter _ = Inl TypeError"

fun is_substring :: "string \<Rightarrow> string \<Rightarrow> bool" where
  "is_substring xs [] = (xs = [])"
| "is_substring xs (y # ys) = (take (length xs) (y # ys) = xs \<or> is_substring xs ys)"

text \<open>\<open>k in v\<close> and \<open>v[k]\<close> for a string \<open>k\<close>.\<close>

fun py_contains :: "string \<Rightarrow> json \<Rightarrow> exn + bool" where
  "py_contains k (JObj kvs) = Inr (map_of kvs k \<noteq> None)"
| "py_contains k (JArr xs) = Inr (JStr k \<in> set xs)"
| "py_contains k (JStr s) = Inr (is_substring k s)"
| "py_contains k _ = Inl TypeError"

fun py_getitem :: "json \<Rightarrow> string \<Rightarrow> exn + json" where
  "py_getitem (JObj kvs) k = (case map_of kvs k of Some v \<Rightarrow> Inr v | None \<Rightarrow> Inl KeyError)"
| "py_getitem _ k = Inl TypeError"

text \<open>\<open>f"{v}"\<close>.\<close>

definition py_str :: "world \<Rightarrow> json \<Rightarrow> string" where
  "py_str w v = (case v of JStr s \<Rightarrow> s | _ \<Rightarrow> py_repr w v)"

text \<open>\<open>os.path.join\<close> of two components (\<open>posixpath\<close>).\<close>

definition os_path_join :: "string \<Rightarrow> string \<Rightarrow> string" where
  "os_path_join a b =
     (if b \<noteq> [] \<and> hd b = CHR ''/'' then b
      else if a = [] \<or> last a = CHR ''/'' then a @ b
      else a @ ''/'' @ b)"

definition os_path_exists :: "string \<Rightarrow> world \<Rightarrow> bool" where
  "os_path_exists p w = (fs w p \<noteq> None)"

definition os_makedirs :: "string \<Rightarrow> world \<Rightarrow> exn option \<times> world" where
  "os_makedirs p w =
     (let w1 = emit (Makedirs p) w
      in if makedirs_fails w p then (Some OSError, w1)
         else (None, w1\<lparr>fs := (fs w1)(p \<mapsto> Dir)\<rparr>))"

text \<open>
  \<open>with open(filename, "w") as file: json.dump(content, file, indent=2)\<close>. Opening a
  directory for writing raises, as does a path the operating system refuses.
\<close>

definition writable :: "world \<Rightarrow> string \<Rightarrow> bool" where
  "writable w p = (\<not> open_fails w p \<and> fs w p \<noteq> Some Dir)"

definition write_json :: "string \<Rightarrow> json \<Rightarrow> world \<Rightarrow> exn option \<times> world" where
  "write_json p content w =
     (if writable w p
      then (None, emit (WriteFile p content) (w\<lparr>fs := (fs w)(p \<mapsto> File (Some content))\<rparr>))
      else (Some OSError, w))"

definition requests_get :: "string \<Rightarrow> json \<Rightarrow> world \<Rightarrow> http_result \<times> world" where
  "requests_get url auth_token w =
     (get_script w (gets w), emit (HttpGet url auth_token) (w\<lparr>gets := Suc (gets w)\<rparr>))"

definition requests_post :: "string \<Rightarrow> json \<Rightarrow> json \<Rightarrow> world \<Rightarrow> http_result \<times> world" where
  "requests_post url client_id client_secret w =
     (post_script w (posts w),
      emit (HttpPost url client_id client_secret) (w\<lparr>posts := Suc (posts w)\<rparr>))"

text \<open>\<open>response.raise_for_status()\<close> raises for a status from 400 to 599.\<close>

definition raises_for_status :: "int \<Rightarrow> bool" where
  "raises_for_status status = (400 \<le> status \<and> status < 600)"

definition json_decode_error :: "world \<Rightarrow> exn" where
  "json_decode_error w =
     (if json_error_is_request_exception w then RequestsJSONDecodeError else JSONDecodeError)"

subsection \<open>Dates\<close>

text \<open>
  A \<open>datetime\<close> is its number of microseconds since 0001-01-01 00:00:00; the day of
  ordinal 1 is 0001-01-01 and the last one, 9999-12-31, has ordinal 3652059.
\<close>

definition MAXORDINAL :: int where "MAXORDINAL = 3652059"

definition toordinal :: "int \<Rightarrow> int" where
  "toordinal t = t div DAY_US + 1"

text \<open>\<open>timedelta(days=d)\<close>, in microseconds, and \<open>datetime - timedelta\<close>.\<close>

definition timedelta_days :: "int \<Rightarrow> exn + int" where
  "timedelta_days d = (if \<bar>d\<bar> > 999999999 then Inl OverflowError else Inr (d * DAY_US))"

definition datetime_sub :: "int \<Rightarrow> int \<Rightarrow> exn + int" where
  "datetime_sub t delta =
     (let r = t - delta
      in if 0 \<le> r \<and> r < MAXORDINAL * DAY_US then Inr r else Inl OverflowError)"

text \<open>The conversion of an ordinal to year, month and day, as \<open>datetime\<close> computes it.\<close>

definition DAYS_BEFORE_MONTH :: "int list" where
  "DAYS_BEFORE_MONTH = [-1, 0, 31, 59, 90, 120, 151, 181, 212, 243, 273, 304, 334]"

definition DAYS_IN_MONTH :: "int list" where
  "DAYS_IN_MONTH = [-1, 31, 28, 31, 30, 31, 30, 31, 31, 30, 31, 30, 31]"

definition ord2ymd :: "int \<Rightarrow> int \<times> int \<times> int" where
  "ord2ymd ordinal =
     (let n = ordinal - 1;
          n400 = n div 146097; n = n mod 146097;
          year = n400 * 400 + 1;
          n100 = n div 36524; n = n mod 36524;
          n4 = n div 1461; n = n mod 1461;
          n1 = n div 365; n = n mod 365;
          year = year + n100 * 100 + n4 * 4 + n1
      in if n1 = 4 \<or> n100 = 4 then (year - 1, 12, 31)
         else
           (let leapyear = (n1 = 3 \<and> (n4 \<noteq> 24 \<or> n100 = 3));
                month = (n + 50) div 32;
                preceding = DAYS_BEFORE_MONTH ! nat month
                            + (if month > 2 \<and> leapyear then 1 else 0)
            in if preceding > n
               then (let month = month - 1;
                         preceding = preceding - (DAYS_IN_MONTH ! nat month
                                       + (if month = 2 \<and> leapyear then 1 else 0))
                     in (year, month, n - preceding + 1))
               else (year, month, n - preceding + 1)))"

definition digit :: "int \<Rightarrow> char" where
  "digit n = ''0123456789'' ! nat n"

definition two_digits :: "int \<Rightarrow> string" where
  "two_digits n = [digit (n div 10), digit (n mod 10)]"

text \<open>\<open>%Y\<close> as glibc prints it: the year in decimal, without padding.\<close>

definition year_digits :: "int \<Rightarrow> string" where
  "year_digits y =
     (if y < 10 then [digit y]
      else if y < 100 then two_digits y
      else if y < 1000 then digit (y div 100) # two_digits (y mod 100)
      else two_digits (y div 100) @ two_digits (y mod 100))"

text \<open>\<open>strftime('%Y-%m-%d')\<close>.\<close>

definition strftime_Ymd :: "int \<Rightarrow> string" where
  "strftime_Ymd t =
     (case ord2ymd (toordinal t) of
        (y, m, d) \<Rightarrow> year_digits y @ ''-'' @ two_digits m @ ''-'' @ two_digits d)"

section \<open>The program\<close>

definition token_url :: string where
  "token_url = ''https://id.cisco.com/oauth2/default/v1/token''"

definition CISCO_API_BASE_URL :: string where
  "CISCO_API_BASE_URL = ''https://apix.cisco.com/security/advisories/v2/all''"

subsection \<open>\<open>get_new_token\<close>\<close>

text \<open>
  The body of the \<open>try\<close>: \<open>Inr\<close> the value returned (\<open>JNull\<close> is Python's \<open>None\<close>), \<open>Inl\<close> an
  exception raised inside it.
\<close>

definition request_token :: "json \<Rightarrow> json \<Rightarrow> world \<Rightarrow> (exn + json) \<times> world" where
  "request_token client_id client_secret w =
     (let w1 = emit (Print RequestingToken) w;
          (response, w2) = requests_post token_url client_id client_secret w1
      in case response of
           ConnectionFailed \<Rightarrow> (Inl ConnectionError, w2)
         | Response status body \<Rightarrow>
             if raises_for_status status then (Inl (HTTPError status), w2)
             else (case body of
                     None \<Rightarrow> (Inl (json_decode_error w2), w2)
                   | Some token_data \<Rightarrow>
                       (case py_contains ''access_token'' token_data of
                          Inl e \<Rightarrow> (Inl e, w2)
                        | Inr True \<Rightarrow>
                            (let w3 = emit (Print TokenObtained) w2
                             in case py_getitem token_data ''access_token'' of
                                  Inl e \<Rightarrow> (Inl e, w3)
                                | Inr access_token \<Rightarrow> (Inr access_token, w3))
                        | Inr False \<Rightarrow>
                            (Inr JNull,
                             emit (Print (AccessTokenResponse token_data))
                               (emit (Print AccessTokenMissing) w2)))))"

definition get_new_token_try :: "world \<Rightarrow> (exn + json) \<times> world" where
  "get_new_token_try w =
     (if \<not> os_path_exists ''credentials.json'' w
      then (Inr JNull, emit (Print CredentialsNotFound) w)
      else if open_fails w ''credentials.json'' then (Inl OSError, w)
      else (case fs w ''credentials.json'' of
              Some (File (Some credentials)) \<Rightarrow>
                (case py_contains ''CLIENT_ID'' credentials of
                   Inl e \<Rightarrow> (Inl e, w)
                 | Inr False \<Rightarrow> (Inr JNull, emit (Print CredentialsIncomplete) w)
                 | Inr True \<Rightarrow>
                     (case py_contains ''CLIENT_SECRET'' credentials of
                        Inl e \<Rightarrow> (Inl e, w)
                      | Inr False \<Rightarrow> (Inr JNull, emit (Print CredentialsIncomplete) w)
                      | Inr True \<Rightarrow>
                          (case py_getitem credentials ''CLIENT_ID'' of
                             Inl e \<Rightarrow> (Inl e, w)
                           | Inr client_id \<Rightarrow>
                               (case py_getitem credentials ''CLIENT_SECRET'' of
                                  Inl e \<Rightarrow> (Inl e, w)
                                | Inr client_secret \<Rightarrow>
                                    request_token client_id client_secret w))))
            | Some (File None) \<Rightarrow> (Inl JSONDecodeError, w)
            | _ \<Rightarrow> (Inl OSError, w)))"

definition get_new_token :: "world \<Rightarrow> json \<times> world" where
  "get_new_token w =
     (case get_new_token_try (emit Enter_get_new_token w) of
        (Inr token, w1) \<Rightarrow> (token, w1)
      | (Inl e, w1) \<Rightarrow> (JNull, emit (Print (ErrorGeneratingToken e)) w1))"

subsection \<open>\<open>process_advisories\<close>\<close>

text \<open>The \<open>for\<close> loop; it stops at the first exception, which \<open>open\<close> alone can raise.\<close>

fun save_each :: "string \<Rightarrow> json list \<Rightarrow> world \<Rightarrow> exn option \<times> world" where
  "save_each save_path [] w = (None, w)"
| "save_each save_path (advisory # rest) w =
     (case advisory of
        JObj kvs \<Rightarrow>
          (case map_of kvs ''advisoryId'' of
             Some advisory_id \<Rightarrow>
               (let filename = os_path_join save_path (py_str w advisory_id @ ''.json'')
                in case write_json filename advisory w of
                     (Some e, w1) \<Rightarrow> (Some e, w1)
                   | (None, w1) \<Rightarrow>
                       save_each save_path rest (emit (Print (SavedAdvisory filename)) w1))
           | None \<Rightarrow> save_each save_path rest (emit (Print (SkippingAdvisory advisory)) w))
      | _ \<Rightarrow> save_each save_path rest (emit (Print (SkippingAdvisory advisory)) w))"

definition process_advisories :: "json \<Rightarrow> string \<Rightarrow> world \<Rightarrow> exn option \<times> world" where
  "process_advisories advisories save_path w =
     (if \<not> truthy advisories then (None, emit (Print NoAdvisoriesFound) w)
      else (case py_len advisories of
              Inl e \<Rightarrow> (Some e, w)
            | Inr n \<Rightarrow>
                (let w1 = emit (Print (ProcessingAdvisories n)) w
                 in case py_iter advisories of
                      Inl e \<Rightarrow> (Some e, w1)
                    | Inr items \<Rightarrow> save_each save_path items w1)))"

subsection \<open>\<open>download_csaf\<close>\<close>

text \<open>
  The choice of the URL: \<open>Inr (Some url)\<close>, \<open>Inr None\<close> for a mode that is neither
  \<open>all\<close> nor \<open>dates\<close>, \<open>Inl\<close> an exception of the date arithmetic.
\<close>

definition dates_url :: "int \<Rightarrow> int \<Rightarrow> string" where
  "dates_url start_date end_date =
     CISCO_API_BASE_URL @ ''/lastpublished?startDate='' @ strftime_Ymd start_date
       @ ''&endDate='' @ strftime_Ymd end_date"

definition build_url :: "string \<Rightarrow> int \<Rightarrow> world \<Rightarrow> (exn + string option) \<times> world" where
  "build_url mode days w =
     (if mode = ''all'' then (Inr (Some CISCO_API_BASE_URL), w)
      else if mode = ''dates'' then
        (let (now1, w1) = datetime_now w
         in case timedelta_days days of
              Inl e \<Rightarrow> (Inl e, w1)
            | Inr delta \<Rightarrow>
                (case datetime_sub now1 delta of
                   Inl e \<Rightarrow> (Inl e, w1)
                 | Inr start_date \<Rightarrow>
                     (let (end_date, w2) = datetime_now w1
                      in (Inr (Some (dates_url start_date end_date)), w2))))
      else (Inr None, w))"

text \<open>
  The two accepted shapes of the response: the value handed to \<open>process_advisories\<close>, or
  \<open>None\<close> for any other shape.
\<close>

definition selected_advisories :: "json \<Rightarrow> json option" where
  "selected_advisories response_data =
     (case response_data of
        JObj kvs \<Rightarrow> map_of kvs ''advisories''
      | JArr xs \<Rightarrow> Some (JArr xs)
      | _ \<Rightarrow> None)"

definition handle_response_data :: "json \<Rightarrow> string \<Rightarrow> world \<Rightarrow> exn option \<times> world" where
  "handle_response_data response_data save_path w =
     (case selected_advisories response_data of
        Some advisories \<Rightarrow> process_advisories advisories save_path w
      | None \<Rightarrow>
          (None, emit (Print (UnexpectedFormatDump response_data))
                   (emit (Print (UnexpectedFormat response_data)) w)))"

text \<open>The body of the \<open>try\<close>, from the request on.\<close>

definition fetch :: "string \<Rightarrow> json \<Rightarrow> string \<Rightarrow> rate_limiter \<Rightarrow> world
    \<Rightarrow> (exn + bool) \<times> rate_limiter \<times> world" where
  "fetch url auth_token save_path rate_limiter w =
     (let (rl1, w1) = wait_if_needed rate_limiter w;
          w2 = emit (Print (RequestingAdvisories url)) w1;
          (response, w3) = requests_get url auth_token w2
      in case response of
           ConnectionFailed \<Rightarrow> (Inl ConnectionError, rl1, w3)
         | Response status body \<Rightarrow>
             (let rl2 = increment rl1
              in if status = 403 then (Inr False, rl2, emit (Print Error403) w3)
                 else if raises_for_status status then (Inl (HTTPError status), rl2, w3)
                 else (case body of
                         None \<Rightarrow> (Inl (json_decode_error w3), rl2, w3)
                       | Some response_data \<Rightarrow>
                           (case handle_response_data response_data save_path
                                   (emit (Print (ResponseType response_data)) w3) of
                              (Some e, w4) \<Rightarrow> (Inl e, rl2, w4)
                            | (None, w4) \<Rightarrow> (Inr True, rl2, w4)))))"

definition download_try :: "string \<Rightarrow> json \<Rightarrow> rate_limiter \<Rightarrow> string \<Rightarrow> int \<Rightarrow> world
    \<Rightarrow> (exn + bool) \<times> rate_limiter \<times> world" where
  "download_try save_path auth_token rate_limiter mode days w =
     (case build_url mode days w of
        (Inl e, w1) \<Rightarrow> (Inl e, rate_limiter, w1)
      | (Inr None, w1) \<Rightarrow> (Inr False, rate_limiter, emit (Print InvalidMode) w1)
      | (Inr (Some url), w1) \<Rightarrow> fetch url auth_token save_path rate_limiter w1)"

text \<open>The two \<open>except\<close> clauses.\<close>

definition download_except :: "(exn + bool) \<times> rate_limiter \<times> world
    \<Rightarrow> (exn + bool) \<times> rate_limiter \<times> world" where
  "download_except r =
     (case r of
        (Inr b, rl, w) \<Rightarrow> (Inr b, rl, w)
      | (Inl e, rl, w) \<Rightarrow>
          if is_request_exception e then (Inr False, rl, emit (Print (ErrorRetrieving e)) w)
          else (Inr False, rl, emit (Traceback e) (emit (Print (UnexpectedError e)) w)))"

text \<open>
  \<open>download_csaf\<close>. The directory is made outside the \<open>try\<close>, so an exception of
  \<open>os.makedirs\<close> leaves the function (\<open>Inl\<close>).
\<close>

definition download_csaf :: "string \<Rightarrow> json \<Rightarrow> rate_limiter \<Rightarrow> string \<Rightarrow> int \<Rightarrow> world
    \<Rightarrow> (exn + bool) \<times> rate_limiter \<times> world" where
  "download_csaf save_path auth_token rate_limiter mode days w =
     (let w0 = emit (Enter_download_csaf auth_token) w
      in if \<not> os_path_exists save_path w0
         then (case os_makedirs save_path w0 of
                 (Some e, w1) \<Rightarrow> (Inl e, rate_limiter, w1)
               | (None, w1) \<Rightarrow>
                   download_except (download_try save_path auth_token rate_limiter mode days w1))
         else download_except (download_try save_path auth_token rate_limiter mode days w0))"

subsection \<open>\<open>main\<close>\<close>

record args =
  path :: string
  token :: "string option"
  mode :: string
  days :: int

datatype outcome = Returned | Raised exn

text \<open>From \<open>Initialize rate limiter\<close> to the end of \<open>main\<close>.\<close>

definition attempts :: "args \<Rightarrow> json \<Rightarrow> world \<Rightarrow> outcome \<times> world" where
  "attempts a auth_token w =
     (let (rate_limiter, w1) = RateLimiter_init w
      in case download_csaf (path a) auth_token rate_limiter (mode a) (days a) w1 of
           (Inl e, rl1, w2) \<Rightarrow> (Raised e, w2)
         | (Inr success, rl1, w2) \<Rightarrow>
             if \<not> success then
               (let w3 = emit (Print InitialAttemptFailed) w2;
                    (new_token, w4) = get_new_token w3
                in if truthy new_token then
                     (case download_csaf (path a) new_token rl1 (mode a) (days a)
                             (emit (Print RetryingDownload) w4) of
                        (Inl e, rl2, w5) \<Rightarrow> (Raised e, w5)
                      | (Inr retried, rl2, w5) \<Rightarrow> (Returned, w5))
                   else (Returned, emit (Print CannotRetry) w4))
             else (Returned, w2))"

definition main :: "args \<Rightarrow> world \<Rightarrow> outcome \<times> world" where
  "main a w =
     (let auth_token = (case token a of None \<Rightarrow> JNull | Some s \<Rightarrow> JStr s)
      in if \<not> truthy auth_token then
           (let w1 = emit (Print NoTokenProvided) w;
                (auth_token, w2) = get_new_token w1
            in if \<not> truthy auth_token then (Returned, emit (Print FailedToObtainToken) w2)
               else attempts a auth_token w2)
         else attempts a auth_token w)"

text \<open>
  The script: \<open>main()\<close> under \<open>if __name__ == "__main__"\<close>. The interpreter ends with
  status 0 when \<open>main\<close> returns, and prints the traceback and ends with status 1 when an
  exception leaves it.
\<close>

definition script :: "args \<Rightarrow> world \<Rightarrow> int \<times> world" where
  "script a w =
     (case main a w of
        (Returned, w1) \<Rightarrow> (0, w1)
      | (Raised e, w1) \<Rightarrow> (1, emit (Traceback e) w1))"

section \<open>Notions used to state the properties\<close>






definition advisory_batch :: "json list" where
  "advisory_batch = [JObj [(''advisoryId'', JStr ''A1'')], JObj [(''foo'', JStr ''bar'')],
                     JObj [(''advisoryId'', JStr ''A2'')]]"

text \<open>Relations between a world and a later one, used in the proofs.\<close>

definition same_env :: "world \<Rightarrow> world \<Rightarrow> bool" where
  "same_env w w' =
     (clock w' = clock w \<and> reads w' = reads w \<and> get_script w' = get_script w \<and>
      gets w' = gets w \<and> post_script w' = post_script w \<and> posts w' = posts w \<and>
      json_error_is_request_exception w' = json_error_is_request_exception w \<and>
      makedirs_fails w' = makedirs_fails w \<and> open_fails w' = open_fails w \<and>
      py_repr w' = py_repr w)"

definition silent :: "(event \<Rightarrow> bool) \<Rightarrow> bool" where
  "silent P =
     ((\<forall>m. \<not> P (Print m)) \<and> (\<forall>d. \<not> P (Sleep d)) \<and> (\<forall>p. \<not> P (Makedirs p)) \<and>
      (\<forall>p c. \<not> P (WriteFile p c)) \<and> (\<forall>u t. \<not> P (HttpGet u t)) \<and>
      (\<forall>u a b. \<not> P (HttpPost u a b)))"

definition fs_grows :: "(string \<Rightarrow> node option) \<Rightarrow> (string \<Rightarrow> node option) \<Rightarrow> bool" where
  "fs_grows f f' =
     (\<forall>p. (f p \<noteq> None \<longrightarrow> f' p \<noteq> None) \<and> (f p = Some Dir \<longrightarrow> f' p = Some Dir))"

definition grows :: "world \<Rightarrow> world \<Rightarrow> bool" where
  "grows w w' = (take (length (events w)) (events w') = events w)"

definition files_step :: "world \<Rightarrow> world \<Rightarrow> bool" where
  "files_step w w' =
     (same_env w w' \<and> grows w w' \<and> fs_grows (fs w) (fs w') \<and>
      (\<forall>P. silent P \<longrightarrow> filter P (events w') = filter P (events w)))"

definition evolves :: "world \<Rightarrow> world \<Rightarrow> bool" where
  "evolves w w' =
     (clock w' = clock w \<and> get_script w' = get_script w \<and> post_script w' = post_script w \<and>
      json_error_is_request_exception w' = json_error_is_request_exception w \<and>
      makedirs_fails w' = makedirs_fails w \<and> open_fails w' = open_fails w \<and>
      py_repr w' = py_repr w \<and> grows w w' \<and> fs_grows (fs w) (fs w'))"

text \<open>The world once \<open>download_csaf\<close> has sent its request.\<close>

definition sent :: "string \<Rightarrow> json \<Rightarrow> rate_limiter \<Rightarrow> world \<Rightarrow> world" where
  "sent url tok rl w =
     (let w2 = emit (Print (RequestingAdvisories url)) (snd (wait_if_needed rl w))
      in emit (HttpGet url tok) (w2\<lparr>gets := Suc (gets w2)\<rparr>))"

text \<open>
  The world when \<open>download_csaf\<close> enters its \<open>try\<close>: the output directory has been made if
  nothing was there.
\<close>

definition entered :: "string \<Rightarrow> json \<Rightarrow> world \<Rightarrow> world" where
  "entered save_path auth_token w =
     (let w0 = emit (Enter_download_csaf auth_token) w
      in if fs w save_path = None
         then (emit (Makedirs save_path) w0)\<lparr>fs := (fs w)(save_path \<mapsto> Dir)\<rparr>
         else w0)"

text \<open>A new limiter on the clock of \<open>quiet_world\<close>, and a world whose requests succeed.\<close>

definition fresh_rl :: rate_limiter where
  "fresh_rl = fst (RateLimiter_init quiet_world)"

definition fresh_world :: world where
  "fresh_world = snd (RateLimiter_init quiet_world)"

definition ok_world :: world where
  "ok_world = fresh_world\<lparr>get_script := (\<lambda>_. Response 200 (Some (JArr advisory_batch)))\<rparr>"

text \<open>The calls of \<open>download_csaf\<close> and \<open>get_new_token\<close> in a trace, and its stack traces.\<close>

fun is_call :: "event \<Rightarrow> bool" where
  "is_call (Enter_download_csaf t) = True"
| "is_call Enter_get_new_token = True"
| "is_call _ = False"

definition calls :: "event list \<Rightarrow> event list" where
  "calls evs = filter is_call evs"

fun is_traceback :: "event \<Rightarrow> bool" where
  "is_traceback (Traceback e) = True"
| "is_traceback _ = False"

definition tracebacks :: "event list \<Rightarrow> event list" where
  "tracebacks evs = filter is_traceback evs"

text \<open>
  The first call of \<open>download_csaf\<close> that \<open>main\<close> makes with the token \<open>tok\<close>, and the
  token that the refresh after its failure yields.
\<close>

definition first_attempt :: "args \<Rightarrow> json \<Rightarrow> world \<Rightarrow> (exn + bool) \<times> rate_limiter \<times> world" where
  "first_attempt a tok w =
     download_csaf (path a) tok (fst (RateLimiter_init w)) (mode a) (days a)
       (snd (RateLimiter_init w))"

definition refreshed :: "args \<Rightarrow> json \<Rightarrow> world \<Rightarrow> json \<times> world" where
  "refreshed a tok w =
     get_new_token (emit (Print InitialAttemptFailed) (snd (snd (first_attempt a tok w))))"

definition second_attempt :: "args \<Rightarrow> json \<Rightarrow> world \<Rightarrow> (exn + bool) \<times> rate_limiter \<times> world" where
  "second_attempt a tok w =
     download_csaf (path a) (fst (refreshed a tok w)) (fst (snd (first_attempt a tok w)))
       (mode a) (days a) (emit (Print RetryingDownload) (snd (refreshed a tok w)))"

text \<open>The token of the command line, \<open>None\<close> when the option is absent.\<close>

definition cli_token :: "args \<Rightarrow> json" where
  "cli_token a = (case token a of None \<Rightarrow> JNull | Some s \<Rightarrow> JStr s)"

text \<open>
  A trace ends with the report of a failed download: one of the three messages, or the
  message of the unexpected error followed by the stack trace.
\<close>

definition is_diagnostic :: "message \<Rightarrow> bool" where
  "is_diagnostic m =
     (case m of InvalidMode \<Rightarrow> True | Error403 \<Rightarrow> True | ErrorRetrieving e \<Rightarrow> True | _ \<Rightarrow> False)"

definition failure_report :: "event list \<Rightarrow> bool" where
  "failure_report evs =
     (evs \<noteq> [] \<and>
      (case last evs of
         Print m \<Rightarrow> is_diagnostic m
       | Traceback e \<Rightarrow> butlast evs \<noteq> [] \<and> last (butlast evs) = Print (UnexpectedError e)
       | _ \<Rightarrow> False))"

text \<open>
  The failures of a download that are not unexpected errors: a mode that is not known, or
  a request that fails in transport or comes back with status 403 or another error
  status.
\<close>

fun http_failure :: "http_result \<Rightarrow> bool" where
  "http_failure ConnectionFailed = True"
| "http_failure (Response status body) = (status = 403 \<or> raises_for_status status)"

definition normal_failure :: "string \<Rightarrow> int \<Rightarrow> world \<Rightarrow> bool" where
  "normal_failure md d w =
     (case fst (build_url md d w) of
        Inl e \<Rightarrow> False
      | Inr None \<Rightarrow> True
      | Inr (Some u) \<Rightarrow> http_failure (get_script w (gets w)))"

text \<open>A step of \<open>get_new_token\<close>: it posts and prints, and touches nothing else.\<close>

definition token_step :: "world \<Rightarrow> world \<Rightarrow> bool" where
  "token_step w w' =
     (clock w' = clock w \<and> reads w' = reads w \<and> get_script w' = get_script w \<and>
      gets w' = gets w \<and> post_script w' = post_script w \<and>
      json_error_is_request_exception w' = json_error_is_request_exception w \<and>
      fs w' = fs w \<and> makedirs_fails w' = makedirs_fails w \<and> open_fails w' = open_fails w \<and>
      py_repr w' = py_repr w \<and> grows w w' \<and>
      (\<forall>P. silent P \<longrightarrow> filter P (events w') = filter P (events w)))"

text \<open>
  Concrete runs of the program: a token on the command line, a first request that fails
  in transport, credentials that yield a new token and a second request that succeeds;
  and a run with neither a token nor credentials.
\<close>

definition retry_world :: world where
  "retry_world = quiet_world\<lparr>
     get_script := (\<lambda>k. if k = 0 then ConnectionFailed
                        else Response 200 (Some (JArr advisory_batch))),
     post_script := (\<lambda>_. Response 200 (Some (JObj [(''access_token'', JStr ''fresh'')]))),
     fs := (\<lambda>p. if p = ''credentials.json''
                 then Some (File (Some (JObj [(''CLIENT_ID'', JStr ''id''),
                                              (''CLIENT_SECRET'', JStr ''secret'')])))
                 else None)\<rparr>"

definition retry_args :: args where
  "retry_args = \<lparr>path = ''out'', token = Some ''old'', mode = ''all'', days = 2\<rparr>"

definition no_token_args :: args where
  "no_token_args = \<lparr>path = ''out'', token = None, mode = ''all'', days = 2\<rparr>"

text \<open>The same run where the second request is rejected with status 403.\<close>

definition denied_world :: world where
  "denied_world = retry_world\<lparr>
     get_script := (\<lambda>k. if k = 0 then ConnectionFailed else Response 403 None)\<rparr>"

section \<open>Properties of the rate limiter\<close>

lemmas limit_defs =
  SECOND_LIMIT_def MINUTE_LIMIT_def DAY_LIMIT_def SECOND_US_def MINUTE_US_def DAY_US_def

lemma check_second_eq:
  "check_second ct (rl, w) =
     (if second_counter rl \<ge> SECOND_LIMIT \<and> SECOND_US - (ct - second_timestamp rl) > 0
      then (rl\<lparr>second_counter := 0, second_timestamp := clock w (reads w)\<rparr>,
            w\<lparr>events := events w @
                 [Print (RateSecondWait (SECOND_US - (ct - second_timestamp rl))),
                  Sleep (SECOND_US - (ct - second_timestamp rl))],
              reads := Suc (reads w)\<rparr>)
      else (rl, w))"
  by (simp add: check_second_def datetime_now_def time_sleep_def emit_def Let_def)

lemma check_minute_eq:
  "check_minute ct (rl, w) =
     (if minute_counter rl \<ge> MINUTE_LIMIT \<and> MINUTE_US - (ct - minute_timestamp rl) > 0
      then (rl\<lparr>minute_counter := 0, minute_timestamp := clock w (reads w)\<rparr>,
            w\<lparr>events := events w @
                 [Print (RateMinuteWait (MINUTE_US - (ct - minute_timestamp rl))),
                  Sleep (MINUTE_US - (ct - minute_timestamp rl))],
              reads := Suc (reads w)\<rparr>)
      else (rl, w))"
  by (simp add: check_minute_def datetime_now_def time_sleep_def emit_def Let_def)

lemma check_day_eq:
  "check_day ct (rl, w) =
     (if day_counter rl \<ge> DAY_LIMIT \<and> DAY_US - (ct - day_timestamp rl) > 0
      then (rl\<lparr>day_counter := 0, day_timestamp := clock w (reads w)\<rparr>,
            w\<lparr>events := events w @
                 [Print (RateDayWait (DAY_US - (ct - day_timestamp rl))),
                  Sleep (DAY_US - (ct - day_timestamp rl))],
              reads := Suc (reads w)\<rparr>)
      else (rl, w))"
  by (simp add: check_day_def datetime_now_def time_sleep_def emit_def Let_def)

text \<open>Each check touches the fields of its own window only.\<close>

lemma reset_elapsed_fields:
  "second_counter (reset_elapsed ct rl) =
     (if ct - second_timestamp rl \<ge> SECOND_US then 0 else second_counter rl)"
  "second_timestamp (reset_elapsed ct rl) =
     (if ct - second_timestamp rl \<ge> SECOND_US then ct else second_timestamp rl)"
  "minute_counter (reset_elapsed ct rl) =
     (if ct - minute_timestamp rl \<ge> MINUTE_US then 0 else minute_counter rl)"
  "minute_timestamp (reset_elapsed ct rl) =
     (if ct - minute_timestamp rl \<ge> MINUTE_US then ct else minute_timestamp rl)"
  "day_counter (reset_elapsed ct rl) =
     (if ct - day_timestamp rl \<ge> DAY_US then 0 else day_counter rl)"
  "day_timestamp (reset_elapsed ct rl) =
     (if ct - day_timestamp rl \<ge> DAY_US then ct else day_timestamp rl)"
  by (simp_all add: reset_elapsed_def Let_def)

lemma check_second_frame:
  "minute_counter (fst (check_second ct s)) = minute_counter (fst s)"
  "minute_timestamp (fst (check_second ct s)) = minute_timestamp (fst s)"
  "day_counter (fst (check_second ct s)) = day_counter (fst s)"
  "day_timestamp (fst (check_second ct s)) = day_timestamp (fst s)"
  by (cases s, simp add: check_second_eq)+

lemma check_minute_frame:
  "second_counter (fst (check_minute ct s)) = second_counter (fst s)"
  "second_timestamp (fst (check_minute ct s)) = second_timestamp (fst s)"
  "day_counter (fst (check_minute ct s)) = day_counter (fst s)"
  "day_timestamp (fst (check_minute ct s)) = day_timestamp (fst s)"
  by (cases s, simp add: check_minute_eq)+

lemma check_day_frame:
  "second_counter (fst (check_day ct s)) = second_counter (fst s)"
  "second_timestamp (fst (check_day ct s)) = second_timestamp (fst s)"
  "minute_counter (fst (check_day ct s)) = minute_counter (fst s)"
  "minute_timestamp (fst (check_day ct s)) = minute_timestamp (fst s)"
  by (cases s, simp add: check_day_eq)+

lemma check_counter:
  "second_counter (fst (check_second ct s)) =
     (if second_counter (fst s) \<ge> SECOND_LIMIT \<and> SECOND_US - (ct - second_timestamp (fst s)) > 0
      then 0 else second_counter (fst s))"
  "minute_counter (fst (check_minute ct s)) =
     (if minute_counter (fst s) \<ge> MINUTE_LIMIT \<and> MINUTE_US - (ct - minute_timestamp (fst s)) > 0
      then 0 else minute_counter (fst s))"
  "day_counter (fst (check_day ct s)) =
     (if day_counter (fst s) \<ge> DAY_LIMIT \<and> DAY_US - (ct - day_timestamp (fst s)) > 0
      then 0 else day_counter (fst s))"
  by (cases s, simp add: check_second_eq check_minute_eq check_day_eq)+

lemma check_timestamp:
  "second_timestamp (fst (check_second ct s)) =
     (if second_counter (fst s) \<ge> SECOND_LIMIT \<and> SECOND_US - (ct - second_timestamp (fst s)) > 0
      then clock (snd s) (reads (snd s)) else second_timestamp (fst s))"
  "minute_timestamp (fst (check_minute ct s)) =
     (if minute_counter (fst s) \<ge> MINUTE_LIMIT \<and> MINUTE_US - (ct - minute_timestamp (fst s)) > 0
      then clock (snd s) (reads (snd s)) else minute_timestamp (fst s))"
  "day_timestamp (fst (check_day ct s)) =
     (if day_counter (fst s) \<ge> DAY_LIMIT \<and> DAY_US - (ct - day_timestamp (fst s)) > 0
      then clock (snd s) (reads (snd s)) else day_timestamp (fst s))"
  by (cases s, simp add: check_second_eq check_minute_eq check_day_eq)+

lemma check_world:
  "events (snd (check_second ct s)) = events (snd s) @
     wait_events RateSecondWait SECOND_LIMIT (second_counter (fst s))
       (SECOND_US - (ct - second_timestamp (fst s)))"
  "reads (snd (check_second ct s)) = reads (snd s) +
     wait_reads SECOND_LIMIT (second_counter (fst s)) (SECOND_US - (ct - second_timestamp (fst s)))"
  "clock (snd (check_second ct s)) = clock (snd s)"
  "events (snd (check_minute ct s)) = events (snd s) @
     wait_events RateMinuteWait MINUTE_LIMIT (minute_counter (fst s))
       (MINUTE_US - (ct - minute_timestamp (fst s)))"
  "reads (snd (check_minute ct s)) = reads (snd s) +
     wait_reads MINUTE_LIMIT (minute_counter (fst s)) (MINUTE_US - (ct - minute_timestamp (fst s)))"
  "clock (snd (check_minute ct s)) = clock (snd s)"
  "events (snd (check_day ct s)) = events (snd s) @
     wait_events RateDayWait DAY_LIMIT (day_counter (fst s))
       (DAY_US - (ct - day_timestamp (fst s)))"
  "reads (snd (check_day ct s)) = reads (snd s) +
     wait_reads DAY_LIMIT (day_counter (fst s)) (DAY_US - (ct - day_timestamp (fst s)))"
  "clock (snd (check_day ct s)) = clock (snd s)"
  by (cases s, simp add: check_second_eq check_minute_eq check_day_eq wait_events_def
      wait_reads_def)+

text \<open>
  A window that the first part of \<open>wait_if_needed\<close> has reset is not full any more, so the
  wait of a window can be read off the state at entry.
\<close>

lemma reset_then_wait:
  "wait_events msg SECOND_LIMIT (second_counter (reset_elapsed ct rl))
       (SECOND_US - (ct - second_timestamp (reset_elapsed ct rl)))
     = wait_events msg SECOND_LIMIT (second_counter rl) (SECOND_US - (ct - second_timestamp rl))"
  "wait_events msg MINUTE_LIMIT (minute_counter (reset_elapsed ct rl))
       (MINUTE_US - (ct - minute_timestamp (reset_elapsed ct rl)))
     = wait_events msg MINUTE_LIMIT (minute_counter rl) (MINUTE_US - (ct - minute_timestamp rl))"
  "wait_events msg DAY_LIMIT (day_counter (reset_elapsed ct rl))
       (DAY_US - (ct - day_timestamp (reset_elapsed ct rl)))
     = wait_events msg DAY_LIMIT (day_counter rl) (DAY_US - (ct - day_timestamp rl))"
  "wait_reads SECOND_LIMIT (second_counter (reset_elapsed ct rl))
       (SECOND_US - (ct - second_timestamp (reset_elapsed ct rl)))
     = wait_reads SECOND_LIMIT (second_counter rl) (SECOND_US - (ct - second_timestamp rl))"
  "wait_reads MINUTE_LIMIT (minute_counter (reset_elapsed ct rl))
       (MINUTE_US - (ct - minute_timestamp (reset_elapsed ct rl)))
     = wait_reads MINUTE_LIMIT (minute_counter rl) (MINUTE_US - (ct - minute_timestamp rl))"
  "wait_reads DAY_LIMIT (day_counter (reset_elapsed ct rl))
       (DAY_US - (ct - day_timestamp (reset_elapsed ct rl)))
     = wait_reads DAY_LIMIT (day_counter rl) (DAY_US - (ct - day_timestamp rl))"
  by (simp_all add: reset_elapsed_fields wait_events_def wait_reads_def limit_defs)

lemma wait_counters:
  "second_counter (fst (wait_if_needed rl w)) =
     (if clock w (reads w) - second_timestamp rl \<ge> SECOND_US \<or> second_counter rl \<ge> SECOND_LIMIT
      then 0 else second_counter rl)"
  "minute_counter (fst (wait_if_needed rl w)) =
     (if clock w (reads w) - minute_timestamp rl \<ge> MINUTE_US \<or> minute_counter rl \<ge> MINUTE_LIMIT
      then 0 else minute_counter rl)"
  "day_counter (fst (wait_if_needed rl w)) =
     (if clock w (reads w) - day_timestamp rl \<ge> DAY_US \<or> day_counter rl \<ge> DAY_LIMIT
      then 0 else day_counter rl)"
  by (simp_all add: wait_if_needed_def datetime_now_def check_day_frame check_minute_frame
      check_second_frame check_counter reset_elapsed_fields limit_defs)

lemma wait_events_eq:
  "events (snd (wait_if_needed rl w)) = events w @
     wait_events RateSecondWait SECOND_LIMIT (second_counter rl)
       (SECOND_US - (clock w (reads w) - second_timestamp rl)) @
     wait_events RateMinuteWait MINUTE_LIMIT (minute_counter rl)
       (MINUTE_US - (clock w (reads w) - minute_timestamp rl)) @
     wait_events RateDayWait DAY_LIMIT (day_counter rl)
       (DAY_US - (clock w (reads w) - day_timestamp rl))"
  by (simp add: wait_if_needed_def datetime_now_def check_world check_day_frame
      check_minute_frame check_second_frame reset_then_wait)

lemma wait_second_timestamp:
  "second_timestamp (fst (wait_if_needed rl w)) =
     (if clock w (reads w) - second_timestamp rl \<ge> SECOND_US then clock w (reads w)
      else if second_counter rl \<ge> SECOND_LIMIT then clock w (Suc (reads w))
      else second_timestamp rl)"
  by (simp add: wait_if_needed_def datetime_now_def check_day_frame check_minute_frame
      check_timestamp reset_elapsed_fields limit_defs)

lemma wait_minute_timestamp:
  "minute_timestamp (fst (wait_if_needed rl w)) =
     (if clock w (reads w) - minute_timestamp rl \<ge> MINUTE_US then clock w (reads w)
      else if minute_counter rl \<ge> MINUTE_LIMIT
        then clock w (Suc (reads w) +
          wait_reads SECOND_LIMIT (second_counter rl)
            (SECOND_US - (clock w (reads w) - second_timestamp rl)))
      else minute_timestamp rl)"
  by (simp add: wait_if_needed_def datetime_now_def check_day_frame check_second_frame
      check_timestamp check_world reset_elapsed_fields reset_then_wait)
     (simp add: limit_defs wait_reads_def)

lemma wait_day_timestamp:
  "day_timestamp (fst (wait_if_needed rl w)) =
     (if clock w (reads w) - day_timestamp rl \<ge> DAY_US then clock w (reads w)
      else if day_counter rl \<ge> DAY_LIMIT
        then clock w (Suc (reads w) +
          wait_reads SECOND_LIMIT (second_counter rl)
            (SECOND_US - (clock w (reads w) - second_timestamp rl)) +
          wait_reads MINUTE_LIMIT (minute_counter rl)
            (MINUTE_US - (clock w (reads w) - minute_timestamp rl)))
      else day_timestamp rl)"
  by (simp add: wait_if_needed_def datetime_now_def check_minute_frame check_second_frame
      check_timestamp check_world reset_elapsed_fields reset_then_wait)
     (simp add: limit_defs wait_reads_def)

lemma wait_counter_cases:
  "second_counter (fst (wait_if_needed rl w)) = second_counter rl \<or>
   second_counter (fst (wait_if_needed rl w)) = 0"
  "minute_counter (fst (wait_if_needed rl w)) = minute_counter rl \<or>
   minute_counter (fst (wait_if_needed rl w)) = 0"
  "day_counter (fst (wait_if_needed rl w)) = day_counter rl \<or>
   day_counter (fst (wait_if_needed rl w)) = 0"
  by (simp_all add: wait_counters)

lemma wait_second_bound: "second_counter (fst (wait_if_needed rl w)) < SECOND_LIMIT"
  by (simp add: wait_counters) (simp add: limit_defs)

lemma wait_minute_bound: "minute_counter (fst (wait_if_needed rl w)) < MINUTE_LIMIT"
  by (simp add: wait_counters) (simp add: limit_defs)

lemma wait_day_bound: "day_counter (fst (wait_if_needed rl w)) < DAY_LIMIT"
  by (simp add: wait_counters) (simp add: limit_defs)

lemma wait_nonneg: "counters_nonneg rl \<Longrightarrow> counters_nonneg (fst (wait_if_needed rl w))"
  by (simp add: counters_nonneg_def wait_counters)

lemma wait_not_above:
  "counters_nonneg rl \<Longrightarrow>
     second_counter (fst (wait_if_needed rl w)) \<le> second_counter rl \<and>
     minute_counter (fst (wait_if_needed rl w)) \<le> minute_counter rl \<and>
     day_counter (fst (wait_if_needed rl w)) \<le> day_counter rl"
  by (simp add: counters_nonneg_def wait_counters)

lemma increment_nonneg: "counters_nonneg rl \<Longrightarrow> counters_nonneg (increment rl)"
  by (simp add: counters_nonneg_def increment_def)

lemma run_op_nonneg: "counters_nonneg (fst s) \<Longrightarrow> counters_nonneg (fst (run_op x s))"
  by (cases s; cases x) (simp_all add: wait_nonneg increment_nonneg)

lemma run_ops_nonneg: "counters_nonneg (fst s) \<Longrightarrow> counters_nonneg (fst (run_ops xs s))"
  by (induction xs arbitrary: s) (simp_all add: run_op_nonneg)

lemma init_nonneg: "counters_nonneg (fst (RateLimiter_init w))"
  by (simp add: RateLimiter_init_def datetime_now_def counters_nonneg_def)

lemma admit_record_within: "within_limits (increment (fst (wait_if_needed rl w)))"
  using wait_second_bound[of rl w] wait_minute_bound[of rl w] wait_day_bound[of rl w]
  by (simp add: within_limits_def increment_def)

lemma api_calls_within:
  "within_limits (fst s) \<Longrightarrow> within_limits (fst (snd (api_calls n s)))"
proof (induction n arbitrary: s)
  case 0
  then show ?case by simp
next
  case (Suc n)
  obtain rl w where s: "s = (rl, w)" by (cases s)
  obtain rl1 w1 where w: "wait_if_needed rl w = (rl1, w1)" by (cases "wait_if_needed rl w")
  have "within_limits (increment rl1)" using admit_record_within[of rl w] w by simp
  then have "within_limits (fst (snd (api_calls n (increment rl1, w1))))"
    using Suc.IH[of "(increment rl1, w1)"] by simp
  then show ?case by (auto simp: s w split: prod.splits)
qed

lemma init_within: "within_limits (fst (RateLimiter_init w))"
  by (simp add: RateLimiter_init_def datetime_now_def within_limits_def limit_defs)

text \<open>
  C1, as the specification states it, fails: the bound is not one on rolling windows. On
  a limiter created at 12:00:00, five calls between 12:00:00.90 and 12:00:00.98 and five
  more between 12:00:01.00 and 12:00:01.08 are all let through without any wait, which
  makes ten calls in the second that starts at 12:00:00.90.
\<close>

theorem rolling_second_window_counterexample:
  "\<not> calls_in_window (burst_t0 + 900000) SECOND_US
        (fst (api_calls 10 (RateLimiter_init quiet_world))) \<le> 5
   \<and> events (snd (snd (api_calls 10 (RateLimiter_init quiet_world)))) = []"
  by code_simp

text \<open>
  C4. For every window whose count has reached its limit when \<open>wait_if_needed\<close> is
  entered, with \<open>sleep_time\<close> the window's duration less the time elapsed since its start:
  if \<open>sleep_time\<close> is positive the call sleeps for \<open>sleep_time\<close> and then sets the count to 0
  and the start to the clock value read after that sleep; otherwise it does not wait for
  that window and sets the count to 0 and the start to the current time. The waits are
  the only effects of the call, in the order second, minute, day.
\<close>

theorem full_window_is_reset:
  "(let ct = clock w (reads w);
        rl' = fst (wait_if_needed rl w);
        new = drop (length (events w)) (events (snd (wait_if_needed rl w)));
        st_s = SECOND_US - (ct - second_timestamp rl);
        st_m = MINUTE_US - (ct - minute_timestamp rl);
        st_d = DAY_US - (ct - day_timestamp rl);
        n_s = wait_reads SECOND_LIMIT (second_counter rl) st_s;
        n_m = wait_reads MINUTE_LIMIT (minute_counter rl) st_m
    in new = wait_events RateSecondWait SECOND_LIMIT (second_counter rl) st_s
           @ wait_events RateMinuteWait MINUTE_LIMIT (minute_counter rl) st_m
           @ wait_events RateDayWait DAY_LIMIT (day_counter rl) st_d
     \<and> (SECOND_LIMIT \<le> second_counter rl \<longrightarrow>
          second_counter rl' = 0 \<and>
          second_timestamp rl' = (if 0 < st_s then clock w (reads w + 1) else ct))
     \<and> (MINUTE_LIMIT \<le> minute_counter rl \<longrightarrow>
          minute_counter rl' = 0 \<and>
          minute_timestamp rl' = (if 0 < st_m then clock w (reads w + 1 + n_s) else ct))
     \<and> (DAY_LIMIT \<le> day_counter rl \<longrightarrow>
          day_counter rl' = 0 \<and>
          day_timestamp rl' = (if 0 < st_d then clock w (reads w + 1 + n_s + n_m) else ct)))"
  unfolding Let_def
  apply (intro conjI impI)
        apply (simp add: wait_events_eq)
       apply (simp add: wait_counters)
      apply (simp add: wait_second_timestamp)
     apply (simp add: wait_counters)
    apply (simp add: wait_minute_timestamp)
   apply (simp add: wait_counters)
  apply (simp add: wait_day_timestamp)
  done

theorem full_window_is_reset_witness:
  "SECOND_LIMIT \<le> second_counter full_rl \<and> MINUTE_LIMIT \<le> minute_counter full_rl \<and>
   DAY_LIMIT \<le> day_counter full_rl \<and>
   events (snd (wait_if_needed full_rl full_world)) =
     [Print (RateSecondWait 600000), Sleep 600000,
      Print (RateDayWait 82800000000), Sleep 82800000000] \<and>
   second_counter (fst (wait_if_needed full_rl full_world)) = 0 \<and>
   second_timestamp (fst (wait_if_needed full_rl full_world)) = burst_t0 + 1000050 \<and>
   minute_counter (fst (wait_if_needed full_rl full_world)) = 0 \<and>
   minute_timestamp (fst (wait_if_needed full_rl full_world)) = burst_t0 + 400000 \<and>
   day_counter (fst (wait_if_needed full_rl full_world)) = 0 \<and>
   day_timestamp (fst (wait_if_needed full_rl full_world)) = burst_t0 + 82801000100"
  using full_window_is_reset [of full_world full_rl]
  by (simp add: Let_def full_rl_def full_world_def quiet_world_def full_clock_def limit_defs
      wait_events_def wait_reads_def)

text \<open>
  C9. \<open>wait_if_needed\<close> leaves each counter as it was or sets it to 0, whatever the state
  and the clock; \<open>increment\<close> adds exactly 1 to each counter and leaves the window starts
  alone; so after any sequence of the two operations on a new limiter the counters are
  not negative, and a further \<open>wait_if_needed\<close> does not raise any of them.
\<close>

theorem admit_never_increases:
  "(second_counter (fst (wait_if_needed rl w)) = second_counter rl \<or>
    second_counter (fst (wait_if_needed rl w)) = 0) \<and>
   (minute_counter (fst (wait_if_needed rl w)) = minute_counter rl \<or>
    minute_counter (fst (wait_if_needed rl w)) = 0) \<and>
   (day_counter (fst (wait_if_needed rl w)) = day_counter rl \<or>
    day_counter (fst (wait_if_needed rl w)) = 0) \<and>
   second_counter (increment rl) = second_counter rl + 1 \<and>
   minute_counter (increment rl) = minute_counter rl + 1 \<and>
   day_counter (increment rl) = day_counter rl + 1 \<and>
   second_timestamp (increment rl) = second_timestamp rl \<and>
   minute_timestamp (increment rl) = minute_timestamp rl \<and>
   day_timestamp (increment rl) = day_timestamp rl \<and>
   counters_nonneg (fst (run_ops ops (RateLimiter_init w0))) \<and>
   second_counter (fst (run_op Admit (run_ops ops (RateLimiter_init w0))))
     \<le> second_counter (fst (run_ops ops (RateLimiter_init w0))) \<and>
   minute_counter (fst (run_op Admit (run_ops ops (RateLimiter_init w0))))
     \<le> minute_counter (fst (run_ops ops (RateLimiter_init w0))) \<and>
   day_counter (fst (run_op Admit (run_ops ops (RateLimiter_init w0))))
     \<le> day_counter (fst (run_ops ops (RateLimiter_init w0)))"
proof -
  have reach: "counters_nonneg (fst (run_ops ops (RateLimiter_init w0)))"
    by (rule run_ops_nonneg) (rule init_nonneg)
  obtain rl1 w1 where s: "run_ops ops (RateLimiter_init w0) = (rl1, w1)"
    by (cases "run_ops ops (RateLimiter_init w0)")
  have "counters_nonneg rl1" using reach s by simp
  from wait_not_above [OF this, of w1] reach show ?thesis
    by (simp add: s wait_counter_cases increment_def)
qed

section \<open>Properties of the persistence step\<close>














text \<open>
  C6. For every list \<open>L\<close>, the wrapped response \<open>{"advisories": L}\<close> and the bare list \<open>L\<close>
  select the same value \<open>L\<close>, and the program does with either exactly what
  \<open>process_advisories\<close> does with \<open>L\<close>.
\<close>

theorem both_shapes_same_records:
  "selected_advisories (JObj [(''advisories'', JArr L)]) = Some (JArr L) \<and>
   selected_advisories (JArr L) = Some (JArr L) \<and>
   handle_response_data (JObj [(''advisories'', JArr L)]) sp w
     = process_advisories (JArr L) sp w \<and>
   handle_response_data (JArr L) sp w = process_advisories (JArr L) sp w"
  by (simp add: selected_advisories_def handle_response_data_def)

section \<open>What each step leaves alone\<close>

lemma grows_refl: "grows w w" by (simp add: grows_def)

lemma grows_trans: "grows a b \<Longrightarrow> grows b c \<Longrightarrow> grows a c"
  unfolding grows_def
  by (metis append_eq_conv_conj append_take_drop_id append.assoc)

lemma grows_append: "events w' = events w @ xs \<Longrightarrow> grows w w'"
  by (simp add: grows_def)

lemma grows_emit: "grows w (emit e w)"
  by (simp add: grows_def emit_def)

lemma fs_grows_refl: "fs_grows f f" by (simp add: fs_grows_def)

lemma fs_grows_trans: "fs_grows a b \<Longrightarrow> fs_grows b c \<Longrightarrow> fs_grows a c"
  by (simp add: fs_grows_def)

lemma evolves_refl: "evolves w w"
  by (simp add: evolves_def grows_refl fs_grows_refl)

lemma evolves_trans: "evolves a b \<Longrightarrow> evolves b c \<Longrightarrow> evolves a c"
  unfolding evolves_def by (auto intro: grows_trans fs_grows_trans)

lemma evolves_emit: "evolves w (emit e w)"
  by (simp add: evolves_def grows_emit) (simp add: emit_def fs_grows_refl)

lemma check_other:
  "get_script (snd (check_second ct s)) = get_script (snd s)"
  "gets (snd (check_second ct s)) = gets (snd s)"
  "post_script (snd (check_second ct s)) = post_script (snd s)"
  "posts (snd (check_second ct s)) = posts (snd s)"
  "json_error_is_request_exception (snd (check_second ct s)) = json_error_is_request_exception (snd s)"
  "fs (snd (check_second ct s)) = fs (snd s)"
  "makedirs_fails (snd (check_second ct s)) = makedirs_fails (snd s)"
  "open_fails (snd (check_second ct s)) = open_fails (snd s)"
  "py_repr (snd (check_second ct s)) = py_repr (snd s)"
  "get_script (snd (check_minute ct s)) = get_script (snd s)"
  "gets (snd (check_minute ct s)) = gets (snd s)"
  "post_script (snd (check_minute ct s)) = post_script (snd s)"
  "posts (snd (check_minute ct s)) = posts (snd s)"
  "json_error_is_request_exception (snd (check_minute ct s)) = json_error_is_request_exception (snd s)"
  "fs (snd (check_minute ct s)) = fs (snd s)"
  "makedirs_fails (snd (check_minute ct s)) = makedirs_fails (snd s)"
  "open_fails (snd (check_minute ct s)) = open_fails (snd s)"
  "py_repr (snd (check_minute ct s)) = py_repr (snd s)"
  "get_script (snd (check_day ct s)) = get_script (snd s)"
  "gets (snd (check_day ct s)) = gets (snd s)"
  "post_script (snd (check_day ct s)) = post_script (snd s)"
  "posts (snd (check_day ct s)) = posts (snd s)"
  "json_error_is_request_exception (snd (check_day ct s)) = json_error_is_request_exception (snd s)"
  "fs (snd (check_day ct s)) = fs (snd s)"
  "makedirs_fails (snd (check_day ct s)) = makedirs_fails (snd s)"
  "open_fails (snd (check_day ct s)) = open_fails (snd s)"
  "py_repr (snd (check_day ct s)) = py_repr (snd s)"
  by (cases s, simp add: check_second_eq check_minute_eq check_day_eq)+

lemma wait_other:
  "clock (snd (wait_if_needed rl w)) = clock w"
  "get_script (snd (wait_if_needed rl w)) = get_script w"
  "gets (snd (wait_if_needed rl w)) = gets w"
  "post_script (snd (wait_if_needed rl w)) = post_script w"
  "posts (snd (wait_if_needed rl w)) = posts w"
  "json_error_is_request_exception (snd (wait_if_needed rl w)) = json_error_is_request_exception w"
  "fs (snd (wait_if_needed rl w)) = fs w"
  "makedirs_fails (snd (wait_if_needed rl w)) = makedirs_fails w"
  "open_fails (snd (wait_if_needed rl w)) = open_fails w"
  "py_repr (snd (wait_if_needed rl w)) = py_repr w"
  by (simp_all add: wait_if_needed_def datetime_now_def check_other check_world)

lemma silent_wait_events: "silent P \<Longrightarrow> filter P (wait_events msg l c s) = []"
  by (simp add: wait_events_def silent_def)

lemma wait_silent: "silent P \<Longrightarrow> filter P (events (snd (wait_if_needed rl w))) = filter P (events w)"
  by (simp add: wait_events_eq silent_wait_events)

lemma wait_evolves: "evolves w (snd (wait_if_needed rl w))"
  by (simp add: evolves_def wait_other fs_grows_refl grows_append[OF wait_events_eq])

text \<open>The limiter after \<open>wait_if_needed\<close> depends on the clock and the number of reads only.\<close>
lemma wait_rl_cong:
  assumes "clock w' = clock w" "reads w' = reads w"
  shows "fst (wait_if_needed rl w') = fst (wait_if_needed rl w)"
  by (rule rate_limiter.equality)
    (simp_all add: wait_counters wait_second_timestamp wait_minute_timestamp wait_day_timestamp
      assms)

lemma files_step_refl: "files_step w w"
  by (simp add: files_step_def same_env_def grows_def fs_grows_def)

lemma files_step_trans: "files_step a b \<Longrightarrow> files_step b c \<Longrightarrow> files_step a c"
  unfolding files_step_def same_env_def
  by (auto intro: grows_trans fs_grows_trans)

lemma files_step_print: "files_step w (emit (Print m) w)"
  by (simp add: files_step_def same_env_def emit_def grows_def fs_grows_def silent_def)

lemma files_step_write:
  "write_json p c w = (r, w') \<Longrightarrow> files_step w w'"
  by (auto simp: write_json_def files_step_def same_env_def emit_def grows_def fs_grows_def
      silent_def writable_def split: if_splits)

lemma save_each_step: "files_step w (snd (save_each sp xs w))"
proof (induction xs arbitrary: w)
  case Nil
  show ?case by (simp add: files_step_refl)
next
  case (Cons r rs)
  show ?case
  proof (cases "\<exists>kvs i. r = JObj kvs \<and> map_of kvs ''advisoryId'' = Some i")
    case True
    then obtain kvs i where r: "r = JObj kvs" and i: "map_of kvs ''advisoryId'' = Some i" by blast
    let ?f = "os_path_join sp (py_str w i @ ''.json'')"
    obtain e w1 where wj: "write_json ?f r w = (e, w1)" by (cases "write_json ?f r w")
    have s1: "files_step w w1" by (rule files_step_write[OF wj])
    show ?thesis
    proof (cases e)
      case None
      have "files_step w1 (emit (Print (SavedAdvisory ?f)) w1)" by (rule files_step_print)
      from files_step_trans[OF s1 this] Cons.IH[of "emit (Print (SavedAdvisory ?f)) w1"]
      have "files_step w (snd (save_each sp rs (emit (Print (SavedAdvisory ?f)) w1)))"
        by (rule files_step_trans)
      then show ?thesis using wj None by (simp add: r i Let_def)
    next
      case (Some x)
      then show ?thesis using wj s1 by (simp add: r i Let_def)
    qed
  next
    case False
    let ?w1 = "emit (Print (SkippingAdvisory r)) w"
    from False have step: "save_each sp (r # rs) w = save_each sp rs ?w1"
      by (auto split: json.splits option.splits)
    from files_step_print[of w "SkippingAdvisory r"] Cons.IH[of ?w1]
    show ?thesis unfolding step by (rule files_step_trans)
  qed
qed

lemma process_advisories_step: "files_step w (snd (process_advisories a sp w))"
proof -
  have "files_step w (snd (save_each sp xs (emit (Print m) w)))" for xs m
    using files_step_print save_each_step by (rule files_step_trans)
  then show ?thesis
    by (auto simp: process_advisories_def files_step_refl files_step_print Let_def
        split: sum.splits)
qed

lemma handle_response_data_step: "files_step w (snd (handle_response_data d sp w))"
proof -
  have "files_step w (emit (Print m2) (emit (Print m1) w))" for m1 m2
    using files_step_print files_step_print by (rule files_step_trans)
  then show ?thesis
    by (auto simp: handle_response_data_def process_advisories_step split: option.splits)
qed

lemma files_step_evolves: "files_step w w' \<Longrightarrow> evolves w w'"
  by (simp add: files_step_def evolves_def same_env_def)

lemma emit_fields:
  "clock (emit e w) = clock w" "reads (emit e w) = reads w"
  "get_script (emit e w) = get_script w" "gets (emit e w) = gets w"
  "post_script (emit e w) = post_script w" "posts (emit e w) = posts w"
  "json_error_is_request_exception (emit e w) = json_error_is_request_exception w"
  "fs (emit e w) = fs w" "makedirs_fails (emit e w) = makedirs_fails w"
  "open_fails (emit e w) = open_fails w" "py_repr (emit e w) = py_repr w"
  "events (emit e w) = events w @ [e]"
  by (simp_all add: emit_def)

lemma fetch_eq:
  "fetch url tok sp rl w =
     (let rl1 = fst (wait_if_needed rl w);
          w3 = sent url tok rl w
      in case get_script w (gets w) of
           ConnectionFailed \<Rightarrow> (Inl ConnectionError, rl1, w3)
         | Response status body \<Rightarrow>
             (let rl2 = increment rl1
              in if status = 403 then (Inr False, rl2, emit (Print Error403) w3)
                 else if raises_for_status status then (Inl (HTTPError status), rl2, w3)
                 else (case body of
                         None \<Rightarrow> (Inl (json_decode_error w3), rl2, w3)
                       | Some response_data \<Rightarrow>
                           (case handle_response_data response_data sp
                                   (emit (Print (ResponseType response_data)) w3) of
                              (Some e, w4) \<Rightarrow> (Inl e, rl2, w4)
                            | (None, w4) \<Rightarrow> (Inr True, rl2, w4)))))"
proof -
  obtain rl1 w1 where e: "wait_if_needed rl w = (rl1, w1)" by (cases "wait_if_needed rl w")
  have g: "gets w1 = gets w" "get_script w1 = get_script w"
    using wait_other(2,3)[of rl w] e by simp_all
  show ?thesis
    by (simp add: fetch_def requests_get_def sent_def e g emit_fields Let_def
        split: http_result.splits option.splits prod.splits)
qed

lemma fetch_rl:
  "fst (snd (fetch url tok sp rl w)) =
     (case get_script w (gets w) of
        ConnectionFailed \<Rightarrow> fst (wait_if_needed rl w)
      | Response status body \<Rightarrow> increment (fst (wait_if_needed rl w)))"
  by (simp add: fetch_eq Let_def split: http_result.splits option.splits prod.splits)

lemma sent_evolves: "evolves w (sent url tok rl w)"
proof -
  have "evolves (snd (wait_if_needed rl w)) (sent url tok rl w)"
    by (simp add: sent_def evolves_def emit_def grows_def fs_grows_refl Let_def)
  with wait_evolves show ?thesis by (rule evolves_trans)
qed

lemma sent_gets: "gets (sent url tok rl w) = Suc (gets w)"
  by (simp add: sent_def emit_def wait_other Let_def)

lemma sent_silent: "silent P \<Longrightarrow> filter P (events (sent url tok rl w)) = filter P (events w)"
  using wait_silent[of P rl w] by (simp add: sent_def emit_def silent_def Let_def)

lemma sent_fs: "fs (sent url tok rl w) = fs w"
  by (simp add: sent_def emit_def wait_other Let_def)

lemma fetch_world:
  assumes "Q (sent url tok rl w)"
    and "Q (emit (Print Error403) (sent url tok rl w))"
    and "\<And>d. Q (snd (handle_response_data d sp
                 (emit (Print (ResponseType d)) (sent url tok rl w))))"
  shows "Q (snd (snd (fetch url tok sp rl w)))"
proof (cases "get_script w (gets w)")
  case ConnectionFailed
  then show ?thesis using assms(1) by (simp add: fetch_eq)
next
  case (Response status body)
  show ?thesis
  proof (cases body)
    case None
    then show ?thesis using Response assms(1,2) by (simp add: fetch_eq Let_def)
  next
    case (Some d)
    obtain e w4 where h: "handle_response_data d sp
        (emit (Print (ResponseType d)) (sent url tok rl w)) = (e, w4)"
      by (cases "handle_response_data d sp (emit (Print (ResponseType d)) (sent url tok rl w))")
    from assms(3)[of d] h have "Q w4" by simp
    then show ?thesis using Response Some assms(1,2) h
      by (cases e) (simp_all add: fetch_eq Let_def)
  qed
qed

lemma fetch_evolves: "evolves w (snd (snd (fetch url tok sp rl w)))"
proof (rule fetch_world)
  show "evolves w (sent url tok rl w)" by (rule sent_evolves)
  show "evolves w (emit (Print Error403) (sent url tok rl w))"
    using sent_evolves evolves_emit by (rule evolves_trans)
  fix d
  have "evolves w (emit (Print (ResponseType d)) (sent url tok rl w))"
    using sent_evolves evolves_emit by (rule evolves_trans)
  then show "evolves w (snd (handle_response_data d sp
                 (emit (Print (ResponseType d)) (sent url tok rl w))))"
    using files_step_evolves[OF handle_response_data_step] by (rule evolves_trans)
qed

lemma fetch_gets: "gets (snd (snd (fetch url tok sp rl w))) = Suc (gets w)"
proof (rule fetch_world)
  show "gets (sent url tok rl w) = Suc (gets w)" by (rule sent_gets)
  show "gets (emit (Print Error403) (sent url tok rl w)) = Suc (gets w)"
    by (simp add: emit_fields sent_gets)
  fix d
  show "gets (snd (handle_response_data d sp
                 (emit (Print (ResponseType d)) (sent url tok rl w)))) = Suc (gets w)"
    using handle_response_data_step[of "emit (Print (ResponseType d)) (sent url tok rl w)" d sp]
    by (simp add: files_step_def same_env_def sent_gets emit_fields)
qed

lemma fetch_reads:
  "reads (snd (snd (fetch url tok sp rl w))) = reads (snd (wait_if_needed rl w))"
proof (rule fetch_world)
  show r: "reads (sent url tok rl w) = reads (snd (wait_if_needed rl w))"
    by (simp add: sent_def emit_fields Let_def)
  show "reads (emit (Print Error403) (sent url tok rl w)) = reads (snd (wait_if_needed rl w))"
    by (simp add: emit_fields r)
  fix d
  show "reads (snd (handle_response_data d sp
                 (emit (Print (ResponseType d)) (sent url tok rl w))))
          = reads (snd (wait_if_needed rl w))"
    using handle_response_data_step[of "emit (Print (ResponseType d)) (sent url tok rl w)" d sp]
    by (simp add: files_step_def same_env_def r emit_fields)
qed

lemma fetch_silent:
  assumes "silent P"
  shows "filter P (events (snd (snd (fetch url tok sp rl w)))) = filter P (events w)"
proof (rule fetch_world)
  show s: "filter P (events (sent url tok rl w)) = filter P (events w)"
    by (rule sent_silent[OF assms])
  have p: "filter P (events (emit (Print m) (sent url tok rl w))) = filter P (events w)" for m
    using assms s by (simp add: emit_fields silent_def)
  then show "filter P (events (emit (Print Error403) (sent url tok rl w))) = filter P (events w)" .
  fix d
  show "filter P (events (snd (handle_response_data d sp
          (emit (Print (ResponseType d)) (sent url tok rl w))))) = filter P (events w)"
    using handle_response_data_step[of "emit (Print (ResponseType d)) (sent url tok rl w)" d sp]
      assms p by (simp add: files_step_def)
qed

lemma build_url_eq:
  "build_url md d w =
     (if md = ''all'' then (Inr (Some CISCO_API_BASE_URL), w)
      else if md = ''dates'' then
        (if \<bar>d\<bar> > 999999999 \<or> clock w (reads w) - d * DAY_US < 0
            \<or> MAXORDINAL * DAY_US \<le> clock w (reads w) - d * DAY_US
         then (Inl OverflowError, w\<lparr>reads := Suc (reads w)\<rparr>)
         else (Inr (Some (dates_url (clock w (reads w) - d * DAY_US) (clock w (Suc (reads w))))),
               w\<lparr>reads := Suc (Suc (reads w))\<rparr>))
      else (Inr None, w))"
  by (auto simp: build_url_def datetime_now_def timedelta_days_def datetime_sub_def Let_def)

lemma build_url_world:
  "\<exists>k. snd (build_url md d w) = w\<lparr>reads := reads w + k\<rparr>"
proof -
  have "snd (build_url md d w) = w\<lparr>reads := reads w + 0\<rparr> \<or>
        snd (build_url md d w) = w\<lparr>reads := reads w + 1\<rparr> \<or>
        snd (build_url md d w) = w\<lparr>reads := reads w + 2\<rparr>"
    by (simp add: build_url_eq)
  then show ?thesis by blast
qed

lemma download_csaf_eq:
  "download_csaf sp tok rl md d w =
     (if fs w sp = None \<and> makedirs_fails w sp
      then (Inl OSError, rl, emit (Makedirs sp) (emit (Enter_download_csaf tok) w))
      else download_except (download_try sp tok rl md d (entered sp tok w)))"
  by (simp add: download_csaf_def os_path_exists_def os_makedirs_def entered_def emit_fields
      Let_def)

lemma entered_fields:
  "clock (entered sp tok w) = clock w" "reads (entered sp tok w) = reads w"
  "get_script (entered sp tok w) = get_script w" "gets (entered sp tok w) = gets w"
  "post_script (entered sp tok w) = post_script w" "posts (entered sp tok w) = posts w"
  "json_error_is_request_exception (entered sp tok w) = json_error_is_request_exception w"
  "makedirs_fails (entered sp tok w) = makedirs_fails w"
  "open_fails (entered sp tok w) = open_fails w" "py_repr (entered sp tok w) = py_repr w"
  "events (entered sp tok w) =
     events w @ Enter_download_csaf tok # (if fs w sp = None then [Makedirs sp] else [])"
  "fs (entered sp tok w) = (if fs w sp = None then (fs w)(sp \<mapsto> Dir) else fs w)"
  by (simp_all add: entered_def emit_fields Let_def)

lemma entered_evolves: "evolves w (entered sp tok w)"
  by (simp add: evolves_def entered_fields grows_def fs_grows_def)

lemma download_except_fields:
  "fst (snd (download_except r)) = fst (snd r)"
  "fst (download_except r) = (case fst r of Inl e \<Rightarrow> Inr False | Inr b \<Rightarrow> Inr b)"
  "gets (snd (snd (download_except r))) = gets (snd (snd r))"
  "reads (snd (snd (download_except r))) = reads (snd (snd r))"
  "fs (snd (snd (download_except r))) = fs (snd (snd r))"
  "evolves (snd (snd r)) (snd (snd (download_except r)))"
  "events (snd (snd (download_except r))) = events (snd (snd r)) @
     (case fst r of
        Inl e \<Rightarrow> if is_request_exception e then [Print (ErrorRetrieving e)]
                 else [Print (UnexpectedError e), Traceback e]
      | Inr b \<Rightarrow> [])"
  by (cases r; cases "fst r";
      simp add: download_except_def emit_fields evolves_def grows_def fs_grows_refl)+

lemma download_try_evolves: "evolves w (snd (snd (download_try sp tok rl md d w)))"
proof -
  obtain k where k: "snd (build_url md d w) = w\<lparr>reads := reads w + k\<rparr>"
    using build_url_world by blast
  have e1: "evolves w (w\<lparr>reads := reads w + k\<rparr>)"
    by (simp add: evolves_def grows_def fs_grows_refl)
  have e2: "evolves w (emit ev (w\<lparr>reads := reads w + k\<rparr>))" for ev
    using e1 evolves_emit by (rule evolves_trans)
  have e3: "evolves w (snd (snd (fetch u tok sp rl (w\<lparr>reads := reads w + k\<rparr>))))" for u
    using e1 fetch_evolves by (rule evolves_trans)
  show ?thesis
    using k e1 e2 e3
    by (cases "build_url md d w") (auto simp: download_try_def split: sum.splits option.splits)
qed

lemma download_try_silent:
  assumes "silent P"
  shows "filter P (events (snd (snd (download_try sp tok rl md d w)))) = filter P (events w)"
proof -
  obtain k where k: "snd (build_url md d w) = w\<lparr>reads := reads w + k\<rparr>"
    using build_url_world by blast
  have e3: "filter P (events (snd (snd (fetch u tok sp rl (w\<lparr>reads := reads w + k\<rparr>)))))
              = filter P (events w)" for u
    using fetch_silent[OF assms, of u tok sp rl "w\<lparr>reads := reads w + k\<rparr>"] by simp
  show ?thesis
    using k e3 assms
    by (cases "build_url md d w")
       (auto simp: download_try_def emit_fields silent_def split: sum.splits option.splits)
qed

lemma download_try_gets:
  "gets (snd (snd (download_try sp tok rl md d w))) =
     (case fst (build_url md d w) of Inr (Some u) \<Rightarrow> Suc (gets w) | _ \<Rightarrow> gets w)"
proof -
  obtain k where k: "snd (build_url md d w) = w\<lparr>reads := reads w + k\<rparr>"
    using build_url_world by blast
  show ?thesis using k
    by (cases "build_url md d w")
       (auto simp: download_try_def emit_fields fetch_gets split: sum.splits option.splits)
qed

lemma download_try_rl:
  "fst (snd (download_try sp tok rl md d w)) =
     (case fst (build_url md d w) of
        Inr (Some u) \<Rightarrow>
          (case get_script w (gets w) of
             ConnectionFailed \<Rightarrow>
               fst (wait_if_needed rl (w\<lparr>reads := reads w + (if md = ''dates'' then 2 else 0)\<rparr>))
           | Response s b \<Rightarrow>
               increment (fst (wait_if_needed rl
                 (w\<lparr>reads := reads w + (if md = ''dates'' then 2 else 0)\<rparr>))))
      | _ \<Rightarrow> rl)"
  by (cases "md = ''all''"; cases "md = ''dates''")
     (auto simp: download_try_def build_url_eq fetch_rl split: http_result.splits)

lemma build_url_cong:
  "clock w' = clock w \<Longrightarrow> reads w' = reads w \<Longrightarrow> fst (build_url md d w') = fst (build_url md d w)"
  by (simp add: build_url_eq)

lemma download_csaf_gets:
  "gets (snd (snd (download_csaf sp tok rl md d w))) =
     (if fs w sp = None \<and> makedirs_fails w sp then gets w
      else case fst (build_url md d w) of Inr (Some u) \<Rightarrow> Suc (gets w) | _ \<Rightarrow> gets w)"
proof -
  have b: "fst (build_url md d (entered sp tok w)) = fst (build_url md d w)"
    by (rule build_url_cong) (simp_all add: entered_fields)
  have "gets (snd (snd (download_try sp tok rl md d (entered sp tok w)))) =
     (case fst (build_url md d w) of Inr (Some u) \<Rightarrow> Suc (gets w) | _ \<Rightarrow> gets w)"
    unfolding download_try_gets b entered_fields(4) by (rule refl)
  then show ?thesis
    by (simp add: download_csaf_eq emit_fields download_except_fields(3))
qed

lemma download_csaf_rl:
  "fst (snd (download_csaf sp tok rl md d w)) =
     (if fs w sp = None \<and> makedirs_fails w sp then rl
      else case fst (build_url md d w) of
        Inr (Some u) \<Rightarrow>
          (case get_script w (gets w) of
             ConnectionFailed \<Rightarrow>
               fst (wait_if_needed rl (w\<lparr>reads := reads w + (if md = ''dates'' then 2 else 0)\<rparr>))
           | Response s b \<Rightarrow>
               increment (fst (wait_if_needed rl
                 (w\<lparr>reads := reads w + (if md = ''dates'' then 2 else 0)\<rparr>))))
      | _ \<Rightarrow> rl)"
proof -
  have c: "fst (wait_if_needed rl ((entered sp tok w)\<lparr>reads := reads (entered sp tok w) + k\<rparr>))
            = fst (wait_if_needed rl (w\<lparr>reads := reads w + k\<rparr>))" for k
    by (rule wait_rl_cong) (simp_all add: entered_fields)
  have b: "fst (build_url md d (entered sp tok w)) = fst (build_url md d w)"
    by (rule build_url_cong) (simp_all add: entered_fields)
  have g: "get_script (entered sp tok w) (gets (entered sp tok w)) = get_script w (gets w)"
    by (simp add: entered_fields)
  have "fst (snd (download_try sp tok rl md d (entered sp tok w))) =
     (case fst (build_url md d w) of
        Inr (Some u) \<Rightarrow>
          (case get_script w (gets w) of
             ConnectionFailed \<Rightarrow>
               fst (wait_if_needed rl (w\<lparr>reads := reads w + (if md = ''dates'' then 2 else 0)\<rparr>))
           | Response s b \<Rightarrow>
               increment (fst (wait_if_needed rl
                 (w\<lparr>reads := reads w + (if md = ''dates'' then 2 else 0)\<rparr>))))
      | _ \<Rightarrow> rl)"
    unfolding download_try_rl b g c by (rule refl)
  then show ?thesis
    by (simp add: download_csaf_eq download_except_fields(1))
qed

lemma grows_prefix:
  assumes "grows a b" "events a = pre @ xs"
  shows "take (length xs) (drop (length pre) (events b)) = xs"
proof -
  from assms(1) have "events b = events a @ drop (length (events a)) (events b)"
    unfolding grows_def by (metis append_take_drop_id)
  then have "events b = pre @ xs @ drop (length (events a)) (events b)"
    using assms(2) by simp
  then show ?thesis by (metis append_eq_conv_conj)
qed

lemma download_from_entered:
  "evolves (entered sp tok w)
     (snd (snd (download_except (download_try sp tok rl md d (entered sp tok w)))))"
  using download_try_evolves download_except_fields(6) by (rule evolves_trans)

lemma download_csaf_returns:
  "\<not> (fs w sp = None \<and> makedirs_fails w sp) \<Longrightarrow>
   download_csaf sp tok rl md d w
     = download_except (download_try sp tok rl md d (entered sp tok w))"
  by (auto simp: download_csaf_eq)

lemma download_csaf_isl:
  "isl (fst (download_csaf sp tok rl md d w)) = (fs w sp = None \<and> makedirs_fails w sp)"
  by (simp add: download_csaf_eq download_except_fields(2) split: sum.splits)

lemma download_csaf_exists:
  assumes "\<not> isl (fst (download_csaf sp tok rl md d w))"
  shows "fs (snd (snd (download_csaf sp tok rl md d w))) sp \<noteq> None"
    and "fs w sp = None \<or> fs w sp = Some Dir \<Longrightarrow> fs (snd (snd (download_csaf sp tok rl md d w))) sp = Some Dir"
proof -
  from assms have n: "\<not> (fs w sp = None \<and> makedirs_fails w sp)"
    by (simp add: download_csaf_isl)
  have g: "fs_grows (fs (entered sp tok w)) (fs (snd (snd (download_csaf sp tok rl md d w))))"
    using download_from_entered[of sp tok w rl md d]
    by (simp add: download_csaf_returns[OF n] evolves_def)
  have "fs (entered sp tok w) sp \<noteq> None" by (simp add: entered_fields)
  with g show "fs (snd (snd (download_csaf sp tok rl md d w))) sp \<noteq> None"
    by (simp add: fs_grows_def)
  assume "fs w sp = None \<or> fs w sp = Some Dir"
  then have "fs (entered sp tok w) sp = Some Dir" by (auto simp: entered_fields)
  with g show "fs (snd (snd (download_csaf sp tok rl md d w))) sp = Some Dir"
    by (simp add: fs_grows_def)
qed

lemma download_csaf_first_events:
  assumes "fs w sp = None"
  shows "take 2 (drop (length (events w)) (events (snd (snd (download_csaf sp tok rl md d w)))))
           = [Enter_download_csaf tok, Makedirs sp]"
proof (cases "makedirs_fails w sp")
  case True
  then show ?thesis using assms by (simp add: download_csaf_eq emit_fields)
next
  case False
  have e: "events (entered sp tok w) = events w @ [Enter_download_csaf tok, Makedirs sp]"
    using assms by (simp add: entered_fields)
  from False have n: "\<not> (fs w sp = None \<and> makedirs_fails w sp)" by simp
  have "grows (entered sp tok w) (snd (snd (download_csaf sp tok rl md d w)))"
    using download_from_entered[of sp tok w rl md d]
    by (simp add: download_csaf_returns[OF n] evolves_def)
  from grows_prefix[OF this e] show ?thesis by (simp add: numeral_2_eq_2)
qed

lemma download_csaf_invalid_mode:
  assumes "md \<noteq> ''all''" "md \<noteq> ''dates''" "\<not> (fs w sp = None \<and> makedirs_fails w sp)"
  shows "download_csaf sp tok rl md d w = (Inr False, rl, emit (Print InvalidMode) (entered sp tok w))"
  using assms
  by (simp add: download_csaf_returns download_try_def build_url_eq download_except_def)


section \<open>Properties of \<open>download_csaf\<close>\<close>

text \<open>
  C3, as the code has it. In a call of \<open>download_csaf\<close> that sends its request, exactly one
  request is sent; when \<open>requests.get\<close> returns a response, whatever its status,
  \<open>increment\<close> is applied once to the limiter that \<open>wait_if_needed\<close> has left; when
  \<open>requests.get\<close> raises, \<open>increment\<close> is not applied and the limiter is as
  \<open>wait_if_needed\<close> has left it.
\<close>

theorem record_after_response:
  "gets (snd (snd (download_csaf sp tok rl md d w))) \<noteq> gets w \<Longrightarrow>
     gets (snd (snd (download_csaf sp tok rl md d w))) = Suc (gets w) \<and>
     fst (snd (download_csaf sp tok rl md d w)) =
       (case get_script w (gets w) of
          ConnectionFailed \<Rightarrow>
            fst (wait_if_needed rl (w\<lparr>reads := reads w + (if md = ''dates'' then 2 else 0)\<rparr>))
        | Response s b \<Rightarrow>
            increment (fst (wait_if_needed rl
              (w\<lparr>reads := reads w + (if md = ''dates'' then 2 else 0)\<rparr>))))"
proof -
  assume a: "gets (snd (snd (download_csaf sp tok rl md d w))) \<noteq> gets w"
  then have n: "\<not> (fs w sp = None \<and> makedirs_fails w sp)"
    by (auto simp: download_csaf_gets)
  from a n obtain u where u: "fst (build_url md d w) = Inr (Some u)"
    by (auto simp: download_csaf_gets split: sum.splits option.splits)
  show ?thesis
    using n u by (simp add: download_csaf_gets download_csaf_rl)
qed

theorem record_after_response_witness:
  "gets (snd (snd (download_csaf ''out'' (JStr ''t'') fresh_rl ''all'' 2 ok_world))) \<noteq> gets ok_world \<and>
   get_script ok_world (gets ok_world) = Response 200 (Some (JArr advisory_batch)) \<and>
   fst (snd (download_csaf ''out'' (JStr ''t'') fresh_rl ''all'' 2 ok_world))
     = increment (fst (wait_if_needed fresh_rl ok_world)) \<and>
   second_counter (fst (snd (download_csaf ''out'' (JStr ''t'') fresh_rl ''all'' 2 ok_world))) = 1 \<and>
   minute_counter (fst (snd (download_csaf ''out'' (JStr ''t'') fresh_rl ''all'' 2 ok_world))) = 1 \<and>
   day_counter (fst (snd (download_csaf ''out'' (JStr ''t'') fresh_rl ''all'' 2 ok_world))) = 1"
proof -
  have h: "gets (snd (snd (download_csaf ''out'' (JStr ''t'') fresh_rl ''all'' 2 ok_world))) \<noteq> gets ok_world"
    by code_simp
  have g: "get_script ok_world (gets ok_world) = Response 200 (Some (JArr advisory_batch))"
    by (simp add: ok_world_def)
  have c: "second_counter (increment (fst (wait_if_needed fresh_rl ok_world))) = 1"
     "minute_counter (increment (fst (wait_if_needed fresh_rl ok_world))) = 1"
     "day_counter (increment (fst (wait_if_needed fresh_rl ok_world))) = 1"
    by code_simp+
  from record_after_response [OF h] g c show ?thesis using h by simp
qed

text \<open>
  C3, as the specification states it, fails for a failure of the transport: the request
  is sent, \<open>requests.get\<close> raises, and the three counters of a new limiter are still 0.
\<close>

theorem transport_failure_counterexample:
  "gets (snd (snd (download_csaf ''out'' (JStr ''t'') fresh_rl ''all'' 2 fresh_world))) = 1 \<and>
   HttpGet CISCO_API_BASE_URL (JStr ''t'')
     \<in> set (events (snd (snd (download_csaf ''out'' (JStr ''t'') fresh_rl ''all'' 2 fresh_world)))) \<and>
   get_script fresh_world 0 = ConnectionFailed \<and>
   second_counter (fst (snd (download_csaf ''out'' (JStr ''t'') fresh_rl ''all'' 2 fresh_world))) = 0 \<and>
   minute_counter (fst (snd (download_csaf ''out'' (JStr ''t'') fresh_rl ''all'' 2 fresh_world))) = 0 \<and>
   day_counter (fst (snd (download_csaf ''out'' (JStr ''t'') fresh_rl ''all'' 2 fresh_world))) = 0"
  by code_simp




text \<open>
  C10. \<open>download_csaf\<close> leaves by an exception only when nothing is at the output path and
  \<open>os.makedirs\<close> raises; then no request is sent and the limiter is untouched. Where
  nothing is at the path, making the directory is the first effect of the call, before
  any request, wait or message. Whenever the call returns, with success or with failure,
  the path exists afterwards, as a directory if nothing was there before. For a mode that
  is neither \<open>all\<close> nor \<open>dates\<close> the call returns failure, the limiter is unchanged, the
  clock is not read, no request is sent, and the only effects are the directory and the
  message.
\<close>

theorem directory_made_first:
  "isl (fst (download_csaf sp tok rl md d w)) = (fs w sp = None \<and> makedirs_fails w sp) \<and>
   (fs w sp = None \<longrightarrow>
      take 2 (drop (length (events w)) (events (snd (snd (download_csaf sp tok rl md d w)))))
        = [Enter_download_csaf tok, Makedirs sp]) \<and>
   (\<not> isl (fst (download_csaf sp tok rl md d w)) \<longrightarrow>
      fs (snd (snd (download_csaf sp tok rl md d w))) sp \<noteq> None \<and>
      (fs w sp = None \<longrightarrow> fs (snd (snd (download_csaf sp tok rl md d w))) sp = Some Dir)) \<and>
   (\<not> isl (fst (download_csaf sp tok rl md d w)) \<and> md \<noteq> ''all'' \<and> md \<noteq> ''dates'' \<longrightarrow>
      fst (download_csaf sp tok rl md d w) = Inr False \<and>
      fst (snd (download_csaf sp tok rl md d w)) = rl \<and>
      gets (snd (snd (download_csaf sp tok rl md d w))) = gets w \<and>
      reads (snd (snd (download_csaf sp tok rl md d w))) = reads w \<and>
      events (snd (snd (download_csaf sp tok rl md d w))) =
        events w @ Enter_download_csaf tok # (if fs w sp = None then [Makedirs sp] else [])
          @ [Print InvalidMode]) \<and>
   (isl (fst (download_csaf sp tok rl md d w)) \<longrightarrow>
      fst (snd (download_csaf sp tok rl md d w)) = rl \<and>
      gets (snd (snd (download_csaf sp tok rl md d w))) = gets w)"
proof (intro conjI impI)
  show "isl (fst (download_csaf sp tok rl md d w)) = (fs w sp = None \<and> makedirs_fails w sp)"
    by (rule download_csaf_isl)
  show "take 2 (drop (length (events w)) (events (snd (snd (download_csaf sp tok rl md d w)))))
        = [Enter_download_csaf tok, Makedirs sp]" if "fs w sp = None"
    using that by (rule download_csaf_first_events)
  show "fs (snd (snd (download_csaf sp tok rl md d w))) sp \<noteq> None"
    if "\<not> isl (fst (download_csaf sp tok rl md d w))"
    using that by (rule download_csaf_exists(1))
  show "fs (snd (snd (download_csaf sp tok rl md d w))) sp = Some Dir"
    if "\<not> isl (fst (download_csaf sp tok rl md d w))" "fs w sp = None"
    using that by (simp add: download_csaf_exists(2))
next
  assume a: "\<not> isl (fst (download_csaf sp tok rl md d w)) \<and> md \<noteq> ''all'' \<and> md \<noteq> ''dates''"
  then have n: "\<not> (fs w sp = None \<and> makedirs_fails w sp)" by (simp add: download_csaf_isl)
  from a n have e: "download_csaf sp tok rl md d w
      = (Inr False, rl, emit (Print InvalidMode) (entered sp tok w))"
    by (simp add: download_csaf_invalid_mode)
  show "fst (download_csaf sp tok rl md d w) = Inr False" by (simp add: e)
  show "fst (snd (download_csaf sp tok rl md d w)) = rl" by (simp add: e)
  show "gets (snd (snd (download_csaf sp tok rl md d w))) = gets w"
    by (simp add: e emit_fields entered_fields)
  show "reads (snd (snd (download_csaf sp tok rl md d w))) = reads w"
    by (simp add: e emit_fields entered_fields)
  show "events (snd (snd (download_csaf sp tok rl md d w))) =
        events w @ Enter_download_csaf tok # (if fs w sp = None then [Makedirs sp] else [])
          @ [Print InvalidMode]"
    by (simp add: e emit_fields entered_fields)
next
  assume "isl (fst (download_csaf sp tok rl md d w))"
  then have r: "fs w sp = None \<and> makedirs_fails w sp" by (simp add: download_csaf_isl)
  show "fst (snd (download_csaf sp tok rl md d w)) = rl" using r by (simp add: download_csaf_eq)
  show "gets (snd (snd (download_csaf sp tok rl md d w))) = gets w"
    using r by (simp add: download_csaf_eq emit_fields)
qed

theorem directory_made_first_witness:
  "fs fresh_world ''out'' = None \<and>
   \<not> isl (fst (download_csaf ''out'' (JStr ''t'') fresh_rl ''bogus'' 2 fresh_world)) \<and>
   ''bogus'' \<noteq> ''all'' \<and> ''bogus'' \<noteq> ''dates'' \<and>
   fst (download_csaf ''out'' (JStr ''t'') fresh_rl ''bogus'' 2 fresh_world) = Inr False \<and>
   fst (snd (download_csaf ''out'' (JStr ''t'') fresh_rl ''bogus'' 2 fresh_world)) = fresh_rl \<and>
   fs (snd (snd (download_csaf ''out'' (JStr ''t'') fresh_rl ''bogus'' 2 fresh_world))) ''out''
     = Some Dir \<and>
   events (snd (snd (download_csaf ''out'' (JStr ''t'') fresh_rl ''bogus'' 2 fresh_world)))
     = [Enter_download_csaf (JStr ''t''), Makedirs ''out'', Print InvalidMode]"
proof -
  have h1: "fs fresh_world ''out'' = None" by code_simp
  have h2: "\<not> isl (fst (download_csaf ''out'' (JStr ''t'') fresh_rl ''bogus'' 2 fresh_world))"
    by code_simp
  have h3: "''bogus'' \<noteq> ''all''" "''bogus'' \<noteq> ''dates''" by simp_all
  have e: "events fresh_world = []" by code_simp
  from directory_made_first [of "''out''" "JStr ''t''" fresh_rl "''bogus''" 2 fresh_world]
  show ?thesis using h1 h2 h3 e by simp
qed

section \<open>Properties of the driver\<close>

lemma token_step_refl: "token_step w w"
  by (simp add: token_step_def grows_refl)

lemma token_step_trans: "token_step a b \<Longrightarrow> token_step b c \<Longrightarrow> token_step a c"
  unfolding token_step_def by (auto intro: grows_trans)

lemma token_step_print: "token_step w (emit (Print m) w)"
  by (simp add: token_step_def emit_fields grows_emit silent_def)

lemma token_step_post:
  "token_step w (snd (requests_post u a b w))"
  by (simp add: token_step_def requests_post_def emit_def grows_def silent_def)

lemma request_token_step: "token_step w (snd (request_token a b w))"
proof -
  let ?w2 = "snd (requests_post token_url a b (emit (Print RequestingToken) w))"
  have s2: "token_step w ?w2"
    using token_step_print token_step_post by (rule token_step_trans)
  have s3: "token_step w (emit (Print m) ?w2)" for m
    using s2 token_step_print by (rule token_step_trans)
  have s4: "token_step w (emit (Print m') (emit (Print m) ?w2))" for m m'
    using s3 token_step_print by (rule token_step_trans)
  obtain r w2 where p: "requests_post token_url a b (emit (Print RequestingToken) w) = (r, w2)"
    by (cases "requests_post token_url a b (emit (Print RequestingToken) w)")
  from s2 s3 s4 p have t: "token_step w w2" "\<And>m. token_step w (emit (Print m) w2)"
    "\<And>m m'. token_step w (emit (Print m') (emit (Print m) w2))" by simp_all
  show ?thesis
    using t by (auto simp: request_token_def p Let_def
        split: http_result.splits option.splits sum.splits bool.splits)
qed

lemma get_new_token_try_step: "token_step w (snd (get_new_token_try w))"
  using request_token_step[of w] token_step_print[of w] token_step_refl[of w]
  by (auto simp: get_new_token_try_def
      split: option.splits node.splits sum.splits bool.splits)

lemma get_new_token_step:
  "token_step (emit Enter_get_new_token w) (snd (get_new_token w))"
proof -
  obtain r w1 where t: "get_new_token_try (emit Enter_get_new_token w) = (r, w1)"
    by (cases "get_new_token_try (emit Enter_get_new_token w)")
  from get_new_token_try_step[of "emit Enter_get_new_token w"] t
  have s: "token_step (emit Enter_get_new_token w) w1" by simp
  then have "token_step (emit Enter_get_new_token w) (emit (Print m) w1)" for m
    using token_step_print by (rule token_step_trans)
  with s show ?thesis by (cases r) (simp_all add: get_new_token_def t)
qed

lemma get_new_token_fields:
  "clock (snd (get_new_token w)) = clock w" "reads (snd (get_new_token w)) = reads w"
  "get_script (snd (get_new_token w)) = get_script w" "gets (snd (get_new_token w)) = gets w"
  "fs (snd (get_new_token w)) = fs w"
  "makedirs_fails (snd (get_new_token w)) = makedirs_fails w"
  using get_new_token_step[of w] by (simp_all add: token_step_def emit_fields)

lemma get_new_token_silent:
  "silent P \<Longrightarrow>
   filter P (events (snd (get_new_token w))) = filter P (events w) @ filter P [Enter_get_new_token]"
  using get_new_token_step[of w] by (simp add: token_step_def emit_fields)

lemma silent_is_call: "silent is_call" by (simp add: silent_def)
lemma silent_is_traceback: "silent is_traceback" by (simp add: silent_def)

lemma init_fields:
  "clock (snd (RateLimiter_init w)) = clock w" "reads (snd (RateLimiter_init w)) = reads w + 3"
  "get_script (snd (RateLimiter_init w)) = get_script w" "gets (snd (RateLimiter_init w)) = gets w"
  "fs (snd (RateLimiter_init w)) = fs w"
  "makedirs_fails (snd (RateLimiter_init w)) = makedirs_fails w"
  "events (snd (RateLimiter_init w)) = events w"
  by (simp_all add: RateLimiter_init_def datetime_now_def)

lemma download_csaf_calls:
  "calls (events (snd (snd (download_csaf sp tok rl md d w))))
     = calls (events w) @ [Enter_download_csaf tok]"
proof (cases "fs w sp = None \<and> makedirs_fails w sp")
  case True
  then show ?thesis by (simp add: download_csaf_eq emit_fields calls_def)
next
  case False
  let ?t = "download_try sp tok rl md d (entered sp tok w)"
  have "calls (events (snd (snd ?t))) = calls (events (entered sp tok w))"
    unfolding calls_def by (rule download_try_silent[OF silent_is_call])
  then have "calls (events (snd (snd (download_except ?t)))) = calls (events (entered sp tok w))"
    by (simp add: download_except_fields(7) calls_def split: sum.splits)
  then show ?thesis
    by (simp add: download_csaf_returns[OF False] entered_fields calls_def)
qed

lemma normal_failure_cong:
  "clock w' = clock w \<Longrightarrow> reads w' = reads w \<Longrightarrow> gets w' = gets w \<Longrightarrow>
   get_script w' = get_script w \<Longrightarrow> normal_failure md d w' = normal_failure md d w"
  by (simp add: normal_failure_def build_url_cong[of w' w] split: sum.splits option.splits)

lemma fetch_http_failure:
  assumes "http_failure (get_script w (gets w))"
  shows "fst (fetch u tok sp rl w) = Inr False \<or>
         fst (fetch u tok sp rl w) = Inl ConnectionError \<or>
         (\<exists>s. fst (fetch u tok sp rl w) = Inl (HTTPError s))"
  using assms
  by (cases "get_script w (gets w)") (auto simp: fetch_eq Let_def)

lemma download_try_normal_failure:
  assumes "normal_failure md d w"
  shows "fst (download_try sp tok rl md d w) = Inr False \<or>
         fst (download_try sp tok rl md d w) = Inl ConnectionError \<or>
         (\<exists>s. fst (download_try sp tok rl md d w) = Inl (HTTPError s))"
proof -
  obtain r w1 where b: "build_url md d w = (r, w1)" by (cases "build_url md d w")
  obtain k where k: "snd (build_url md d w) = w\<lparr>reads := reads w + k\<rparr>"
    using build_url_world by blast
  with b have w1: "w1 = w\<lparr>reads := reads w + k\<rparr>" by simp
  show ?thesis
  proof (cases r)
    case (Inl e)
    with assms b show ?thesis by (simp add: normal_failure_def)
  next
    case (Inr ou)
    show ?thesis
    proof (cases ou)
      case None
      with Inr b show ?thesis by (simp add: download_try_def)
    next
      case (Some u)
      with assms b Inr have "http_failure (get_script w1 (gets w1))"
        by (simp add: normal_failure_def w1)
      from fetch_http_failure[OF this, of u tok sp rl] show ?thesis
        using Inr Some b by (simp add: download_try_def)
    qed
  qed
qed

lemma download_csaf_normal_failure:
  assumes "normal_failure md d w" "\<not> (fs w sp = None \<and> makedirs_fails w sp)"
  shows "fst (download_csaf sp tok rl md d w) = Inr False"
    and "tracebacks (events (snd (snd (download_csaf sp tok rl md d w)))) = tracebacks (events w)"
proof -
  let ?t = "download_try sp tok rl md d (entered sp tok w)"
  have n: "normal_failure md d (entered sp tok w)"
    using assms(1) normal_failure_cong[of "entered sp tok w" w md d]
    by (simp add: entered_fields)
  have t: "tracebacks (events (snd (snd ?t))) = tracebacks (events (entered sp tok w))"
    unfolding tracebacks_def by (rule download_try_silent[OF silent_is_traceback])
  have e: "tracebacks (events (entered sp tok w)) = tracebacks (events w)"
    by (simp add: entered_fields tracebacks_def)
  from download_try_normal_failure[OF n, of sp tok rl]
  have c: "fst ?t = Inr False \<or> (\<exists>x. fst ?t = Inl x \<and> is_request_exception x)"
    by auto
  show "fst (download_csaf sp tok rl md d w) = Inr False"
    using c by (auto simp: download_csaf_returns[OF assms(2)] download_except_fields(2))
  show "tracebacks (events (snd (snd (download_csaf sp tok rl md d w)))) = tracebacks (events w)"
    using c t e
    by (auto simp: download_csaf_returns[OF assms(2)] download_except_fields(7) tracebacks_def)
qed

lemma failure_report_print:
  "is_diagnostic m \<Longrightarrow> failure_report (events (emit (Print m) w))"
  by (simp add: failure_report_def emit_fields)

lemma fetch_false:
  "fst (fetch u tok sp rl w) = Inr False \<Longrightarrow>
   snd (snd (fetch u tok sp rl w)) = emit (Print Error403) (sent u tok rl w)"
  by (cases "get_script w (gets w)")
     (auto simp: fetch_eq Let_def split: if_splits option.splits prod.splits)

lemma download_try_false:
  assumes "fst (download_try sp tok rl md d w) = Inr False"
  shows "failure_report (events (snd (snd (download_try sp tok rl md d w))))"
proof -
  obtain r w1 where b: "build_url md d w = (r, w1)" by (cases "build_url md d w")
  show ?thesis
  proof (cases r)
    case (Inl e)
    with assms b show ?thesis by (simp add: download_try_def)
  next
    case (Inr ou)
    show ?thesis
    proof (cases ou)
      case None
      with Inr b show ?thesis
        by (simp add: download_try_def failure_report_print is_diagnostic_def)
    next
      case (Some u)
      with assms Inr b have "fst (fetch u tok sp rl w1) = Inr False"
        by (simp add: download_try_def)
      from fetch_false[OF this] show ?thesis
        using Inr Some b by (simp add: download_try_def failure_report_print is_diagnostic_def)
    qed
  qed
qed

lemma download_csaf_false:
  assumes "fst (download_csaf sp tok rl md d w) = Inr False"
  shows "failure_report (events (snd (snd (download_csaf sp tok rl md d w))))"
proof -
  from assms have n: "\<not> (fs w sp = None \<and> makedirs_fails w sp)"
    by (auto simp: download_csaf_eq)
  let ?t = "download_try sp tok rl md d (entered sp tok w)"
  show ?thesis
  proof (cases "fst ?t")
    case (Inl e)
    then show ?thesis
      by (simp add: download_csaf_returns[OF n] download_except_fields(7) failure_report_def
          is_diagnostic_def butlast_append)
  next
    case (Inr b)
    with assms have "fst ?t = Inr False"
      by (simp add: download_csaf_returns[OF n] download_except_fields(2))
    from download_try_false[OF this] Inr show ?thesis
      by (simp add: download_csaf_returns[OF n] download_except_fields(7))
  qed
qed

lemma attempts_eq:
  "attempts a tok w =
     (case fst (first_attempt a tok w) of
        Inl e \<Rightarrow> (Raised e, snd (snd (first_attempt a tok w)))
      | Inr success \<Rightarrow>
          if success then (Returned, snd (snd (first_attempt a tok w)))
          else if truthy (fst (refreshed a tok w)) then
            (case fst (second_attempt a tok w) of
               Inl e \<Rightarrow> (Raised e, snd (snd (second_attempt a tok w)))
             | Inr retried \<Rightarrow> (Returned, snd (snd (second_attempt a tok w))))
          else (Returned, emit (Print CannotRetry) (snd (refreshed a tok w))))"
proof -
  obtain rl0 w1 where i: "RateLimiter_init w = (rl0, w1)" by (cases "RateLimiter_init w")
  obtain r1 rl1 w2 where f: "download_csaf (path a) tok rl0 (mode a) (days a) w1 = (r1, rl1, w2)"
    by (cases "download_csaf (path a) tok rl0 (mode a) (days a) w1")
  obtain nt w4 where g: "get_new_token (emit (Print InitialAttemptFailed) w2) = (nt, w4)"
    by (cases "get_new_token (emit (Print InitialAttemptFailed) w2)")
  obtain r2 rl2 w5 where s: "download_csaf (path a) nt rl1 (mode a) (days a)
      (emit (Print RetryingDownload) w4) = (r2, rl2, w5)"
    by (cases "download_csaf (path a) nt rl1 (mode a) (days a) (emit (Print RetryingDownload) w4)")
  show ?thesis
    by (cases r1; cases r2)
       (simp_all add: attempts_def first_attempt_def refreshed_def second_attempt_def i f g s
          Let_def)
qed

lemma first_attempt_calls:
  "calls (events (snd (snd (first_attempt a tok w)))) = calls (events w) @ [Enter_download_csaf tok]"
  by (simp add: first_attempt_def download_csaf_calls init_fields)

lemma refreshed_calls:
  "calls (events (snd (refreshed a tok w)))
     = calls (events w) @ [Enter_download_csaf tok, Enter_get_new_token]"
  using get_new_token_silent[OF silent_is_call,
      of "emit (Print InitialAttemptFailed) (snd (snd (first_attempt a tok w)))"]
    first_attempt_calls[of a tok w]
  by (simp add: refreshed_def calls_def emit_fields)

lemma attempts_calls:
  "calls (events (snd (attempts a tok w))) =
     calls (events w) @ Enter_download_csaf tok #
       (if fst (first_attempt a tok w) = Inr False
        then Enter_get_new_token #
             (if truthy (fst (refreshed a tok w))
              then [Enter_download_csaf (fst (refreshed a tok w))] else [])
        else [])"
proof (cases "fst (first_attempt a tok w)")
  case (Inl e)
  then show ?thesis by (simp add: attempts_eq first_attempt_calls)
next
  case (Inr success)
  show ?thesis
  proof (cases success)
    case True
    with Inr show ?thesis by (simp add: attempts_eq first_attempt_calls)
  next
    case False
    show ?thesis
    proof (cases "truthy (fst (refreshed a tok w))")
      case True
      let ?r2 = "second_attempt a tok w"
      have "calls (events (snd (snd ?r2))) =
              calls (events w) @ [Enter_download_csaf tok, Enter_get_new_token,
                                  Enter_download_csaf (fst (refreshed a tok w))]"
        by (simp add: second_attempt_def download_csaf_calls)
           (simp add: calls_def emit_fields refreshed_calls[unfolded calls_def])
      then show ?thesis using Inr False True
        by (cases "fst ?r2") (simp_all add: attempts_eq)
    next
      case nt: False
      have "calls (events (emit (Print CannotRetry) (snd (refreshed a tok w))))
              = calls (events w) @ [Enter_download_csaf tok, Enter_get_new_token]"
        using refreshed_calls[of a tok w] by (simp add: calls_def emit_fields)
      then show ?thesis using Inr False nt by (simp add: attempts_eq)
    qed
  qed
qed

lemma first_attempt_normal_failure:
  assumes "normal_failure (mode a) (days a) (snd (RateLimiter_init w))"
    and "\<not> (fs w (path a) = None \<and> makedirs_fails w (path a))"
  shows "fst (first_attempt a tok w) = Inr False"
  unfolding first_attempt_def
  by (rule download_csaf_normal_failure(1)[OF assms(1)]) (simp add: init_fields assms(2))

lemma first_attempt_returns:
  assumes "\<not> (fs w (path a) = None \<and> makedirs_fails w (path a))"
  shows "\<not> isl (fst (first_attempt a tok w))"
  using assms by (simp add: first_attempt_def download_csaf_isl init_fields)

lemma second_attempt_returns:
  assumes "\<not> isl (fst (first_attempt a tok w))"
  shows "\<not> isl (fst (second_attempt a tok w))"
proof -
  from assms have "fs (snd (snd (first_attempt a tok w))) (path a) \<noteq> None"
    unfolding first_attempt_def by (rule download_csaf_exists(1))
  then have "fs (emit (Print RetryingDownload) (snd (refreshed a tok w))) (path a) \<noteq> None"
    by (simp add: refreshed_def emit_fields get_new_token_fields)
  then show ?thesis by (simp add: second_attempt_def download_csaf_isl)
qed

lemma attempts_returns:
  assumes "\<not> (fs w (path a) = None \<and> makedirs_fails w (path a))"
  shows "fst (attempts a tok w) = Returned"
proof -
  note f = first_attempt_returns[OF assms, of tok]
  note s = second_attempt_returns[OF f]
  from f obtain b where b: "fst (first_attempt a tok w) = Inr b"
    by (cases "fst (first_attempt a tok w)") simp_all
  from s obtain c where c: "fst (second_attempt a tok w) = Inr c"
    by (cases "fst (second_attempt a tok w)") simp_all
  show ?thesis by (simp add: attempts_eq b c)
qed

lemma main_eq:
  "main a w =
     (if truthy (cli_token a) then attempts a (cli_token a) w
      else if truthy (fst (get_new_token (emit (Print NoTokenProvided) w)))
        then attempts a (fst (get_new_token (emit (Print NoTokenProvided) w)))
               (snd (get_new_token (emit (Print NoTokenProvided) w)))
        else (Returned, emit (Print FailedToObtainToken)
                (snd (get_new_token (emit (Print NoTokenProvided) w)))))"
  by (simp add: main_def cli_token_def Let_def split: prod.splits)

lemma main_returns:
  assumes "\<not> (fs w (path a) = None \<and> makedirs_fails w (path a))"
  shows "fst (main a w) = Returned"
proof -
  let ?g = "get_new_token (emit (Print NoTokenProvided) w)"
  have "\<not> (fs (snd ?g) (path a) = None \<and> makedirs_fails (snd ?g) (path a))"
    using assms by (simp add: get_new_token_fields emit_fields)
  from attempts_returns[OF this] attempts_returns[OF assms] show ?thesis
    by (simp add: main_eq)
qed

lemma script_status: "fst (main a w) = Returned \<Longrightarrow> fst (script a w) = 0"
  by (cases "main a w") (simp add: script_def)

lemma no_token_run:
  assumes "\<not> truthy (cli_token a)"
    and "\<not> truthy (fst (get_new_token (emit (Print NoTokenProvided) w)))"
  shows "script a w = (0, emit (Print FailedToObtainToken)
                            (snd (get_new_token (emit (Print NoTokenProvided) w))))"
    and "tracebacks (events (snd (script a w))) = tracebacks (events w)"
proof -
  show s: "script a w = (0, emit (Print FailedToObtainToken)
                            (snd (get_new_token (emit (Print NoTokenProvided) w))))"
    using assms by (simp add: script_def main_eq)
  show "tracebacks (events (snd (script a w))) = tracebacks (events w)"
    using get_new_token_silent[OF silent_is_traceback, of "emit (Print NoTokenProvided) w"]
    by (simp add: s emit_fields tracebacks_def)
qed

lemma cannot_retry_run:
  assumes "fst (first_attempt a tok w) = Inr False" "\<not> truthy (fst (refreshed a tok w))"
  shows "last (events (snd (attempts a tok w))) = Print CannotRetry"
  using assms by (simp add: attempts_eq emit_fields)

lemma second_failure_run:
  assumes "fst (first_attempt a tok w) = Inr False" "truthy (fst (refreshed a tok w))"
    "fst (second_attempt a tok w) = Inr False"
  shows "failure_report (events (snd (attempts a tok w)))"
  using assms download_csaf_false[of "path a" "fst (refreshed a tok w)"
      "fst (snd (first_attempt a tok w))" "mode a" "days a"
      "emit (Print RetryingDownload) (snd (refreshed a tok w))"]
  by (simp add: attempts_eq second_attempt_def)


text \<open>
  C2, as the code has it. After its first call of \<open>download_csaf\<close> the driver asks for a
  new token when and only when that call returns failure, of any kind: a request that
  fails in transport or comes back with status 403 or another error status, and a mode
  that is not known, all return failure. It then calls \<open>download_csaf\<close> once more, with the
  new token, when and only when a token was obtained. Nothing follows: there is no third
  call and no second refresh. With a token on the command line \<open>main\<close> is this driver.
\<close>

theorem retry_after_any_failure:
  "calls (events (snd (attempts a tok w))) =
     calls (events w) @ Enter_download_csaf tok #
       (if fst (first_attempt a tok w) = Inr False
        then Enter_get_new_token #
             (if truthy (fst (refreshed a tok w))
              then [Enter_download_csaf (fst (refreshed a tok w))] else [])
        else []) \<and>
   (token a = Some s \<and> s \<noteq> [] \<longrightarrow> main a w = attempts a (JStr s) w) \<and>
   (normal_failure (mode a) (days a) (snd (RateLimiter_init w)) \<and>
    \<not> (fs w (path a) = None \<and> makedirs_fails w (path a)) \<longrightarrow>
      fst (first_attempt a tok w) = Inr False)"
  using attempts_calls[of a tok w] first_attempt_normal_failure[of a w tok]
  by (simp add: main_def)

theorem retry_after_any_failure_witness:
  "token retry_args = Some ''old'' \<and> ''old'' \<noteq> [] \<and>
   normal_failure (mode retry_args) (days retry_args) (snd (RateLimiter_init retry_world)) \<and>
   \<not> (fs retry_world (path retry_args) = None \<and> makedirs_fails retry_world (path retry_args)) \<and>
   fst (first_attempt retry_args (JStr ''old'') retry_world) = Inr False \<and>
   main retry_args retry_world = attempts retry_args (JStr ''old'') retry_world \<and>
   calls (events (snd (main retry_args retry_world))) =
     [Enter_download_csaf (JStr ''old''), Enter_get_new_token, Enter_download_csaf (JStr ''fresh'')]"
proof -
  have h1: "token retry_args = Some ''old'' \<and> ''old'' \<noteq> []" by (simp add: retry_args_def)
  have h2: "normal_failure (mode retry_args) (days retry_args) (snd (RateLimiter_init retry_world))"
    by code_simp
  have h3: "\<not> (fs retry_world (path retry_args) = None \<and> makedirs_fails retry_world (path retry_args))"
    by code_simp
  have e: "calls (events retry_world) = []" "fst (refreshed retry_args (JStr ''old'') retry_world) = JStr ''fresh''"
    by code_simp+
  from retry_after_any_failure [of retry_args "JStr ''old''" retry_world "''old''"]
  show ?thesis using h1 h2 h3 e by simp
qed

text \<open>
  C2, as the specification states it, fails in its ``only when'': the first request fails
  in transport, no status 403 is ever seen, and the driver still gets a new token and
  calls \<open>download_csaf\<close> a second time.
\<close>

theorem retry_on_transport_failure_counterexample:
  "get_script retry_world 0 = ConnectionFailed \<and>
   Print Error403 \<notin> set (events (snd (main retry_args retry_world))) \<and>
   Print (ErrorRetrieving ConnectionError) \<in> set (events (snd (main retry_args retry_world))) \<and>
   calls (events (snd (main retry_args retry_world))) =
     [Enter_download_csaf (JStr ''old''), Enter_get_new_token, Enter_download_csaf (JStr ''fresh'')]"
  by code_simp

text \<open>
  C8, as the code has it. \<open>main\<close> never sets a status: unless \<open>os.makedirs\<close> raises, the
  script ends with status 0, on every failure as on success. Each failure is reported by
  a message: when no token can be obtained the run ends with the message of the missing
  token and prints no stack trace; when the refresh fails it ends with the message that
  the download cannot be retried; every call of \<open>download_csaf\<close> that returns failure ends
  with its report, and so does the run when the second attempt fails. A download that
  fails for a mode that is not known, a failure of transport, a status 403 or another
  error status prints no stack trace.
\<close>

theorem failures_reported_status_zero:
  "(\<not> (fs w (path a) = None \<and> makedirs_fails w (path a)) \<longrightarrow> fst (script a w) = 0) \<and>
   (\<not> truthy (cli_token a) \<and> \<not> truthy (fst (get_new_token (emit (Print NoTokenProvided) w))) \<longrightarrow>
      fst (script a w) = 0 \<and>
      last (events (snd (script a w))) = Print FailedToObtainToken \<and>
      tracebacks (events (snd (script a w))) = tracebacks (events w)) \<and>
   (fst (first_attempt a tok w) = Inr False \<and> \<not> truthy (fst (refreshed a tok w)) \<longrightarrow>
      last (events (snd (attempts a tok w))) = Print CannotRetry) \<and>
   (fst (first_attempt a tok w) = Inr False \<and> truthy (fst (refreshed a tok w)) \<and>
    fst (second_attempt a tok w) = Inr False \<longrightarrow>
      failure_report (events (snd (attempts a tok w)))) \<and>
   (fst (download_csaf sp tok' rl md d w') = Inr False \<longrightarrow>
      failure_report (events (snd (snd (download_csaf sp tok' rl md d w'))))) \<and>
   (normal_failure md d w' \<and> \<not> (fs w' sp = None \<and> makedirs_fails w' sp) \<longrightarrow>
      fst (download_csaf sp tok' rl md d w') = Inr False \<and>
      tracebacks (events (snd (snd (download_csaf sp tok' rl md d w')))) = tracebacks (events w'))"
proof (intro conjI impI)
  show "fst (script a w) = 0" if "\<not> (fs w (path a) = None \<and> makedirs_fails w (path a))"
    using that by (simp add: script_status main_returns)
next
  assume t: "\<not> truthy (cli_token a) \<and>
             \<not> truthy (fst (get_new_token (emit (Print NoTokenProvided) w)))"
  then have s: "script a w = (0, emit (Print FailedToObtainToken)
                            (snd (get_new_token (emit (Print NoTokenProvided) w))))"
    by (simp add: no_token_run(1))
  show "fst (script a w) = 0" by (simp add: s)
  show "last (events (snd (script a w))) = Print FailedToObtainToken"
    by (simp add: s emit_fields)
  show "tracebacks (events (snd (script a w))) = tracebacks (events w)"
    using t by (simp add: no_token_run(2))
next
  show "last (events (snd (attempts a tok w))) = Print CannotRetry"
    if "fst (first_attempt a tok w) = Inr False \<and> \<not> truthy (fst (refreshed a tok w))"
    using that by (simp add: cannot_retry_run)
  show "failure_report (events (snd (attempts a tok w)))"
    if "fst (first_attempt a tok w) = Inr False \<and> truthy (fst (refreshed a tok w)) \<and>
        fst (second_attempt a tok w) = Inr False"
    using that by (simp add: second_failure_run)
  show "failure_report (events (snd (snd (download_csaf sp tok' rl md d w'))))"
    if "fst (download_csaf sp tok' rl md d w') = Inr False"
    using that by (rule download_csaf_false)
next
  assume n: "normal_failure md d w' \<and> \<not> (fs w' sp = None \<and> makedirs_fails w' sp)"
  show "fst (download_csaf sp tok' rl md d w') = Inr False"
    using n by (simp add: download_csaf_normal_failure(1))
  show "tracebacks (events (snd (snd (download_csaf sp tok' rl md d w')))) = tracebacks (events w')"
    using n by (simp add: download_csaf_normal_failure(2))
qed

theorem failures_reported_status_zero_witness:
  "\<not> (fs quiet_world (path no_token_args) = None \<and> makedirs_fails quiet_world (path no_token_args)) \<and>
   \<not> truthy (cli_token no_token_args) \<and>
   \<not> truthy (fst (get_new_token (emit (Print NoTokenProvided) quiet_world))) \<and>
   fst (first_attempt no_token_args (JStr ''old'') quiet_world) = Inr False \<and>
   \<not> truthy (fst (refreshed no_token_args (JStr ''old'') quiet_world)) \<and>
   fst (first_attempt retry_args (JStr ''old'') denied_world) = Inr False \<and>
   truthy (fst (refreshed retry_args (JStr ''old'') denied_world)) \<and>
   fst (second_attempt retry_args (JStr ''old'') denied_world) = Inr False \<and>
   normal_failure ''all'' 2 fresh_world \<and>
   fst (script no_token_args quiet_world) = 0 \<and>
   last (events (snd (script no_token_args quiet_world))) = Print FailedToObtainToken \<and>
   tracebacks (events (snd (script no_token_args quiet_world))) = [] \<and>
   last (events (snd (attempts no_token_args (JStr ''old'') quiet_world))) = Print CannotRetry \<and>
   failure_report (events (snd (attempts retry_args (JStr ''old'') denied_world))) \<and>
   fst (download_csaf ''out'' (JStr ''old'') fresh_rl ''all'' 2 fresh_world) = Inr False \<and>
   failure_report (events (snd (snd (download_csaf ''out'' (JStr ''old'') fresh_rl ''all'' 2 fresh_world)))) \<and>
   tracebacks (events (snd (snd (download_csaf ''out'' (JStr ''old'') fresh_rl ''all'' 2 fresh_world)))) = []"
proof -
  have h1: "\<not> (fs quiet_world (path no_token_args) = None \<and> makedirs_fails quiet_world (path no_token_args))"
    by code_simp
  have h2: "\<not> truthy (cli_token no_token_args)"
    "\<not> truthy (fst (get_new_token (emit (Print NoTokenProvided) quiet_world)))"
    by code_simp+
  have h3: "fst (first_attempt no_token_args (JStr ''old'') quiet_world) = Inr False"
    "\<not> truthy (fst (refreshed no_token_args (JStr ''old'') quiet_world))"
    by code_simp+
  have h4: "fst (first_attempt retry_args (JStr ''old'') denied_world) = Inr False"
    "truthy (fst (refreshed retry_args (JStr ''old'') denied_world))"
    "fst (second_attempt retry_args (JStr ''old'') denied_world) = Inr False"
    by code_simp+
  have h5: "normal_failure ''all'' 2 fresh_world"
    "\<not> (fs fresh_world ''out'' = None \<and> makedirs_fails fresh_world ''out'')"
    by code_simp+
  have e: "tracebacks (events quiet_world) = []" "tracebacks (events fresh_world) = []"
    by code_simp+
  from failures_reported_status_zero [of quiet_world no_token_args "JStr ''old''"
      "''out''" "JStr ''old''" fresh_rl "''all''" 2 fresh_world]
    failures_reported_status_zero [of denied_world retry_args "JStr ''old''"
      "''out''" "JStr ''old''" fresh_rl "''all''" 2 fresh_world]
  show ?thesis using h1 h2 h3 h4 h5 e by simp
qed

text \<open>
  C8, as the specification states it, fails in the terminal outcome: with neither a token
  nor credentials the run reports the failure and ends with status 0.
\<close>

theorem exit_status_counterexample:
  "\<not> truthy (cli_token no_token_args) \<and>
   \<not> truthy (fst (get_new_token (emit (Print NoTokenProvided) quiet_world))) \<and>
   fst (script no_token_args quiet_world) = 0 \<and>
   events (snd (script no_token_args quiet_world)) =
     [Print NoTokenProvided, Enter_get_new_token, Print CredentialsNotFound,
      Print FailedToObtainToken]"
  by code_simp

section \<open>Calls per counting period\<close>

lemma chain_tags:
  "period_chain D L (t, c) xs \<Longrightarrow> 0 < D \<Longrightarrow> x \<in> set xs \<Longrightarrow> fst x = t \<or> t + D \<le> fst x"
proof (induction xs arbitrary: t c)
  case Nil
  then show ?case by simp
next
  case (Cons y ys)
  from Cons.prems(1) have s: "period_step D L (t, c) y" and ch: "period_chain D L (fst y, snd y + 1) ys"
    by simp_all
  from s have y: "fst y = t \<or> t + D \<le> fst y" by (auto simp: period_step_def)
  show ?case
  proof (cases "x = y")
    case True
    with y show ?thesis by simp
  next
    case False
    with Cons.prems(3) have "x \<in> set ys" by simp
    from Cons.IH[OF ch Cons.prems(2) this] y Cons.prems(2) show ?thesis by auto
  qed
qed

lemma chain_count:
  "period_chain D L (t, c) xs \<Longrightarrow> 0 < D \<Longrightarrow> 0 < L \<Longrightarrow> c \<le> L \<Longrightarrow>
   int (length (filter (\<lambda>x. fst x = s) xs)) \<le> (if s = t then L - c else L)"
proof (induction xs arbitrary: t c)
  case Nil
  then show ?case by simp
next
  case (Cons y ys)
  from Cons.prems(1) have s: "period_step D L (t, c) y" and ch: "period_chain D L (fst y, snd y + 1) ys"
    by simp_all
  from s Cons.prems(3) have b: "snd y + 1 \<le> L" by (auto simp: period_step_def)
  note ih = Cons.IH[OF ch Cons.prems(2,3) b]
  show ?case
  proof (cases "fst y = t")
    case True
    with s Cons.prems(2) have "snd y = c" by (auto simp: period_step_def)
    with ih True show ?thesis by (auto split: if_splits)
  next
    case False
    with s have r: "t + D \<le> fst y" "snd y = 0" by (auto simp: period_step_def)
    have none: "filter (\<lambda>x. fst x = t) ys = []"
    proof -
      have "fst x \<noteq> t" if "x \<in> set ys" for x
        using chain_tags[OF ch Cons.prems(2) that] r(1) Cons.prems(2) by auto
      then show ?thesis by (simp add: filter_empty_conv)
    qed
    show ?thesis
      using ih r False none Cons.prems(4) by (auto split: if_splits)
  qed
qed

lemma chain_steps: "period_chain D L (t, c) xs \<Longrightarrow> steps_by D (t # map fst xs)"
proof (induction xs arbitrary: t c)
  case Nil
  then show ?case by simp
next
  case (Cons y ys)
  then show ?case by (auto simp: period_step_def)
qed

lemma chain_final:
  "period_chain D L (t, c) xs \<Longrightarrow> 0 < D \<Longrightarrow>
   (fst (period_final (t, c) xs) = t \<or> t + D \<le> fst (period_final (t, c) xs)) \<and>
   snd (period_final (t, c) xs) =
     (if fst (period_final (t, c) xs) = t then c else 0)
       + int (length (filter (\<lambda>x. fst x = fst (period_final (t, c) xs)) xs))"
proof (induction xs arbitrary: t c)
  case Nil
  then show ?case by simp
next
  case (Cons y ys)
  from Cons.prems(1) have s: "period_step D L (t, c) y" and ch: "period_chain D L (fst y, snd y + 1) ys"
    by simp_all
  note ih = Cons.IH[OF ch Cons.prems(2)]
  let ?f = "period_final (fst y, snd y + 1) ys"
  show ?case
  proof (cases "fst y = t")
    case True
    with s Cons.prems(2) have "snd y = c" by (auto simp: period_step_def)
    with ih True show ?thesis by auto
  next
    case False
    with s have r: "t + D \<le> fst y" "snd y = 0" by (auto simp: period_step_def)
    from ih r Cons.prems(2) have far: "t + D \<le> fst ?f" by auto
    with Cons.prems(2) have ne: "fst ?f \<noteq> t" by auto
    from ih r ne far show ?thesis by auto
  qed
qed

lemma total_sleep_append: "total_sleep (xs @ ys) = total_sleep xs + total_sleep ys"
  by (induction xs rule: total_sleep.induct) simp_all

lemma total_sleep_wait_events:
  "total_sleep (wait_events msg L c st) = (if L \<le> c \<and> 0 < st then st else 0)"
  by (simp add: wait_events_def)

lemma slept_append: "events w' = events w @ xs \<Longrightarrow> slept w w' = total_sleep xs"
  by (simp add: slept_def)

lemma wait_reads_eq:
  "reads (snd (wait_if_needed rl w)) = Suc (reads w) +
     wait_reads SECOND_LIMIT (second_counter rl) (SECOND_US - (clock w (reads w) - second_timestamp rl)) +
     wait_reads MINUTE_LIMIT (minute_counter rl) (MINUTE_US - (clock w (reads w) - minute_timestamp rl)) +
     wait_reads DAY_LIMIT (day_counter rl) (DAY_US - (clock w (reads w) - day_timestamp rl))"
  by (simp add: wait_if_needed_def datetime_now_def check_world check_day_frame check_minute_frame
      check_second_frame reset_then_wait)

lemma admit_honest_eq:
  "admit_honest rl w =
     (let r = reads w; ct = clock w r;
          st_s = SECOND_US - (ct - second_timestamp rl);
          st_m = MINUTE_US - (ct - minute_timestamp rl);
          st_d = DAY_US - (ct - day_timestamp rl);
          n_s = wait_reads SECOND_LIMIT (second_counter rl) st_s;
          n_m = wait_reads MINUTE_LIMIT (minute_counter rl) st_m;
          n_d = wait_reads DAY_LIMIT (day_counter rl) st_d
      in clock w r + total_sleep (wait_events RateSecondWait SECOND_LIMIT (second_counter rl) st_s)
           \<le> clock w (r + n_s) \<and>
         clock w (r + n_s)
           + total_sleep (wait_events RateMinuteWait MINUTE_LIMIT (minute_counter rl) st_m)
           \<le> clock w (r + n_s + n_m) \<and>
         clock w (r + n_s + n_m)
           + total_sleep (wait_events RateDayWait DAY_LIMIT (day_counter rl) st_d)
           \<le> clock w (r + n_s + n_m + n_d))"
proof -
  let ?ct = "clock w (reads w)"
  let ?w0 = "w\<lparr>reads := Suc (reads w)\<rparr>"
  let ?s0 = "(reset_elapsed ?ct rl, ?w0)"
  let ?s1 = "check_second ?ct ?s0"
  let ?s2 = "check_minute ?ct ?s1"
  let ?s3 = "check_day ?ct ?s2"
  let ?es = "wait_events RateSecondWait SECOND_LIMIT (second_counter rl) (SECOND_US - (?ct - second_timestamp rl))"
  let ?em = "wait_events RateMinuteWait MINUTE_LIMIT (minute_counter rl) (MINUTE_US - (?ct - minute_timestamp rl))"
  let ?ed = "wait_events RateDayWait DAY_LIMIT (day_counter rl) (DAY_US - (?ct - day_timestamp rl))"
  let ?ns = "wait_reads SECOND_LIMIT (second_counter rl) (SECOND_US - (?ct - second_timestamp rl))"
  let ?nm = "wait_reads MINUTE_LIMIT (minute_counter rl) (MINUTE_US - (?ct - minute_timestamp rl))"
  let ?nd = "wait_reads DAY_LIMIT (day_counter rl) (DAY_US - (?ct - day_timestamp rl))"
  have e1: "events (snd ?s1) = events ?w0 @ ?es" by (simp add: check_world reset_then_wait)
  have e2: "events (snd ?s2) = events (snd ?s1) @ ?em"
    by (simp add: check_world check_second_frame reset_then_wait)
  have e3: "events (snd ?s3) = events (snd ?s2) @ ?ed"
    by (simp add: check_world check_second_frame check_minute_frame reset_then_wait)
  have r1: "reads (snd ?s1) = Suc (reads w + ?ns)" by (simp add: check_world reset_then_wait)
  have r2: "reads (snd ?s2) = Suc (reads w + ?ns + ?nm)"
    by (simp add: check_world check_second_frame reset_then_wait)
  have r3: "reads (snd ?s3) = Suc (reads w + ?ns + ?nm + ?nd)"
    by (simp add: check_world check_second_frame check_minute_frame reset_then_wait)
  have c: "clock (snd ?s1) = clock w" "clock (snd ?s2) = clock w" "clock (snd ?s3) = clock w"
    by (simp_all add: check_world)
  have h1: "honest ?w0 (snd ?s1) = (?ct + total_sleep ?es \<le> clock w (reads w + ?ns))"
    by (simp add: honest_def slept_append[OF e1] last_now_def r1 c)
  have h2: "honest (snd ?s1) (snd ?s2)
      = (clock w (reads w + ?ns) + total_sleep ?em \<le> clock w (reads w + ?ns + ?nm))"
    by (simp add: honest_def slept_append[OF e2] last_now_def r1 r2 c)
  have h3: "honest (snd ?s2) (snd ?s3)
      = (clock w (reads w + ?ns + ?nm) + total_sleep ?ed \<le> clock w (reads w + ?ns + ?nm + ?nd))"
    by (simp add: honest_def slept_append[OF e3] last_now_def r2 r3 c)
  show ?thesis
    unfolding admit_honest_def datetime_now_def Let_def prod.case h1 h2 h3 by (rule refl)
qed

lemma step_second:
  "admit_honest rl w \<Longrightarrow>
   period_step SECOND_US SECOND_LIMIT (second_timestamp rl, second_counter rl)
     (second_timestamp (fst (wait_if_needed rl w)), second_counter (fst (wait_if_needed rl w)))"
  unfolding admit_honest_eq Let_def
  by (auto simp: period_step_def wait_counters wait_second_timestamp wait_events_def wait_reads_def
      limit_defs split: if_splits)

lemma step_minute:
  "admit_honest rl w \<Longrightarrow>
   period_step MINUTE_US MINUTE_LIMIT (minute_timestamp rl, minute_counter rl)
     (minute_timestamp (fst (wait_if_needed rl w)), minute_counter (fst (wait_if_needed rl w)))"
  unfolding admit_honest_eq Let_def
  by (auto simp: period_step_def wait_counters wait_minute_timestamp wait_events_def wait_reads_def
      limit_defs split: if_splits)

lemma step_day:
  "admit_honest rl w \<Longrightarrow>
   period_step DAY_US DAY_LIMIT (day_timestamp rl, day_counter rl)
     (day_timestamp (fst (wait_if_needed rl w)), day_counter (fst (wait_if_needed rl w)))"
  unfolding admit_honest_eq Let_def
  by (auto simp: period_step_def wait_counters wait_day_timestamp wait_events_def wait_reads_def
      limit_defs split: if_splits)

lemma log_chain:
  assumes st: "\<And>rl w. admit_honest rl w \<Longrightarrow>
      period_step D L (ts rl, cn rl) (ts (fst (wait_if_needed rl w)), cn (fst (wait_if_needed rl w)))"
    and inc: "\<And>rl. ts (increment rl) = ts rl" "\<And>rl. cn (increment rl) = cn rl + 1"
  shows "honest_run n (rl, w) \<Longrightarrow>
     period_chain D L (ts rl, cn rl) (map (\<lambda>c. (ts (snd c), cn (snd c))) (api_log n (rl, w)))"
proof (induction n arbitrary: rl w)
  case 0
  show ?case by simp
next
  case (Suc n)
  obtain rl1 w1 where e: "wait_if_needed rl w = (rl1, w1)" by (cases "wait_if_needed rl w")
  from Suc.prems e have h: "admit_honest rl w" and r: "honest_run n (increment rl1, w1)"
    by simp_all
  from st[OF h] e have s: "period_step D L (ts rl, cn rl) (ts rl1, cn rl1)" by simp
  from Suc.IH[OF r] have "period_chain D L (ts rl1, cn rl1 + 1)
      (map (\<lambda>c. (ts (snd c), cn (snd c))) (api_log n (increment rl1, w1)))"
    by (simp add: inc)
  with s show ?case by (simp add: e)
qed

lemma log_final:
  assumes inc: "\<And>rl. ts (increment rl) = ts rl" "\<And>rl. cn (increment rl) = cn rl + 1"
  shows "period_final (ts rl, cn rl) (map (\<lambda>c. (ts (snd c), cn (snd c))) (api_log n (rl, w)))
           = (ts (fst (snd (api_calls n (rl, w)))), cn (fst (snd (api_calls n (rl, w)))))"
proof (induction n arbitrary: rl w)
  case 0
  show ?case by simp
next
  case (Suc n)
  obtain rl1 w1 where e: "wait_if_needed rl w = (rl1, w1)" by (cases "wait_if_needed rl w")
  from Suc.IH[of "increment rl1" w1] show ?case
    by (simp add: e inc split: prod.splits)
qed

lemma log_times: "map fst (api_log n s) = fst (api_calls n s)"
proof (induction n arbitrary: s)
  case 0
  show ?case by simp
next
  case (Suc n)
  obtain rl w where s: "s = (rl, w)" by (cases s)
  obtain rl1 w1 where e: "wait_if_needed rl w = (rl1, w1)" by (cases "wait_if_needed rl w")
  from Suc.IH[of "(increment rl1, w1)"] show ?case
    by (simp add: s e split: prod.splits)
qed

lemma period_view:
  "calls_in_period ts s log
     = length (filter (\<lambda>x. fst x = s) (map (\<lambda>c. (ts (snd c), cn (snd c))) log))"
  by (simp add: calls_in_period_def filter_map o_def)

lemma period_facts:
  assumes st: "\<And>rl w. admit_honest rl w \<Longrightarrow>
      period_step D L (ts rl, cn rl) (ts (fst (wait_if_needed rl w)), cn (fst (wait_if_needed rl w)))"
    and inc: "\<And>rl. ts (increment rl) = ts rl" "\<And>rl. cn (increment rl) = cn rl + 1"
    and pos: "0 < D" "0 < L"
    and run: "honest_run n (rl, w)" and c: "cn rl = 0"
  shows "int (calls_in_period ts s (api_log n (rl, w))) \<le> L"
    and "cn (fst (snd (api_calls n (rl, w))))
           = int (calls_in_period ts (ts (fst (snd (api_calls n (rl, w))))) (api_log n (rl, w)))"
    and "steps_by D (map (\<lambda>c. ts (snd c)) (api_log n (rl, w)))"
proof -
  let ?v = "map (\<lambda>c. (ts (snd c), cn (snd c))) (api_log n (rl, w))"
  have ch: "period_chain D L (ts rl, cn rl) ?v" by (rule log_chain[OF st inc run])
  have "cn rl \<le> L" using c pos by simp
  from chain_count[OF ch pos this, of s] c pos
  show "int (calls_in_period ts s (api_log n (rl, w))) \<le> L"
    by (simp add: period_view[of ts s _ cn] split: if_splits)
  from chain_final[OF ch pos(1)] log_final[of ts cn, OF inc, of rl n w] c
  show "cn (fst (snd (api_calls n (rl, w))))
           = int (calls_in_period ts (ts (fst (snd (api_calls n (rl, w))))) (api_log n (rl, w)))"
    by (simp add: period_view[of ts _ _ cn] split: if_splits)
  have "steps_by D (ts rl # map fst ?v)" by (rule chain_steps[OF ch])
  then have "steps_by D (map fst ?v)" by (cases ?v) (simp_all split: list.splits)
  then show "steps_by D (map (\<lambda>c. ts (snd c)) (api_log n (rl, w)))"
    by (simp add: o_def)
qed

lemma clock_mono:
  assumes "\<And>k. clock w k \<le> clock w (Suc k)" "i \<le> j"
  shows "clock w i \<le> clock w j"
  using assms by (simp add: lift_Suc_mono_le)

lemma wait_not_future:
  assumes mono: "\<And>k. clock w k \<le> clock w (Suc k)" and nf: "not_future rl w"
  shows "not_future (fst (wait_if_needed rl w)) (snd (wait_if_needed rl w))"
proof -
  let ?ns = "wait_reads SECOND_LIMIT (second_counter rl) (SECOND_US - (clock w (reads w) - second_timestamp rl))"
  let ?nm = "wait_reads MINUTE_LIMIT (minute_counter rl) (MINUTE_US - (clock w (reads w) - minute_timestamp rl))"
  let ?nd = "wait_reads DAY_LIMIT (day_counter rl) (DAY_US - (clock w (reads w) - day_timestamp rl))"
  let ?e = "reads w + ?ns + ?nm + ?nd"
  have l: "last_now (snd (wait_if_needed rl w)) = clock w ?e"
    by (simp add: last_now_def wait_reads_eq wait_other(1))
  have up: "clock w i \<le> clock w ?e" if "i \<le> ?e" for i
    using mono that by (rule clock_mono)
  have m: "clock w i \<le> clock w j" if "i \<le> j" for i j
    using mono that by (rule clock_mono)
  from nf have old: "last_now w \<le> clock w ?e"
    by (auto simp: not_future_def last_now_def intro: up)
  have a: "second_timestamp (fst (wait_if_needed rl w)) \<le> clock w ?e"
    using nf old by (auto simp: wait_second_timestamp not_future_def wait_reads_def intro!: m)
  have b: "minute_timestamp (fst (wait_if_needed rl w)) \<le> clock w ?e"
    using nf old by (auto simp: wait_minute_timestamp not_future_def wait_reads_def intro!: m)
  have c: "day_timestamp (fst (wait_if_needed rl w)) \<le> clock w ?e"
    using nf old by (auto simp: wait_day_timestamp not_future_def wait_reads_def intro!: m)
  show ?thesis
    using a b c by (simp add: not_future_def l wait_reads_eq)
qed

lemma log_after_start:
  assumes mono: "\<And>k. clock w k \<le> clock w (Suc k)"
  shows "not_future rl w \<Longrightarrow> list_all after_start (api_log n (rl, w))"
  using mono
proof (induction n arbitrary: rl w)
  case 0
  show ?case by simp
next
  case (Suc n)
  obtain rl1 w1 where e: "wait_if_needed rl w = (rl1, w1)" by (cases "wait_if_needed rl w")
  from wait_not_future[OF Suc.prems(2,1)] e have nf: "not_future rl1 w1" by simp
  then have nf': "not_future (increment rl1) w1" by (simp add: not_future_def increment_def)
  have c: "clock w1 = clock w" using wait_other(1)[of rl w] e by simp
  have "list_all after_start (api_log n (increment rl1, w1))"
    by (rule Suc.IH[OF nf']) (simp add: c Suc.prems(2))
  moreover from nf have "after_start (last_now w1, rl1)"
    by (simp add: after_start_def not_future_def)
  ultimately show ?case by (simp add: e)
qed

lemma init_not_future:
  assumes "\<And>k. clock w k \<le> clock w (Suc k)"
  shows "not_future (fst (RateLimiter_init w)) (snd (RateLimiter_init w))"
proof -
  have "clock w (reads w) \<le> clock w (Suc (Suc (reads w)))"
    "clock w (Suc (reads w)) \<le> clock w (Suc (Suc (reads w)))"
    using assms by (auto intro: clock_mono)
  then show ?thesis
    by (simp add: not_future_def RateLimiter_init_def datetime_now_def last_now_def)
qed

lemma init_counters:
  "second_counter (fst (RateLimiter_init w)) = 0" "minute_counter (fst (RateLimiter_init w)) = 0"
  "day_counter (fst (RateLimiter_init w)) = 0"
  by (simp_all add: RateLimiter_init_def datetime_now_def)

lemma init_clock: "clock (snd (RateLimiter_init w)) = clock w"
  by (simp add: RateLimiter_init_def datetime_now_def)

lemma increment_fields:
  "second_timestamp (increment rl) = second_timestamp rl"
  "second_counter (increment rl) = second_counter rl + 1"
  "minute_timestamp (increment rl) = minute_timestamp rl"
  "minute_counter (increment rl) = minute_counter rl + 1"
  "day_timestamp (increment rl) = day_timestamp rl"
  "day_counter (increment rl) = day_counter rl + 1"
  by (simp_all add: increment_def)

text \<open>
  C1, as the code has it. Whatever the state and the clock, each count is below its limit
  when \<open>wait_if_needed\<close> returns and at most the limit after the \<open>increment\<close> that follows.
  On a clock that honours the sleeps, for any number of calls made on a new limiter: no
  counting period of a window, named by its start, has more calls recorded in it than the
  window's limit (5, 30, 5000); each count is the number of calls recorded in the
  window's current period; and the starts of a window's successive periods are at least
  the window's duration apart. On a clock that does not go backwards, every call is let
  through no earlier than the start of each period that records it. The periods are
  fixed ones, begun again at each reset, not rolling windows.
\<close>

theorem counts_within_limits:
  "second_counter (fst (wait_if_needed rl w)) < SECOND_LIMIT \<and>
   minute_counter (fst (wait_if_needed rl w)) < MINUTE_LIMIT \<and>
   day_counter (fst (wait_if_needed rl w)) < DAY_LIMIT \<and>
   within_limits (increment (fst (wait_if_needed rl w))) \<and>
   within_limits (fst (snd (api_calls n (RateLimiter_init w0)))) \<and>
   map fst (api_log n (RateLimiter_init w0)) = fst (api_calls n (RateLimiter_init w0)) \<and>
   (honest_run n (RateLimiter_init w0) \<longrightarrow>
      int (calls_in_period second_timestamp s (api_log n (RateLimiter_init w0))) \<le> SECOND_LIMIT \<and>
      int (calls_in_period minute_timestamp s (api_log n (RateLimiter_init w0))) \<le> MINUTE_LIMIT \<and>
      int (calls_in_period day_timestamp s (api_log n (RateLimiter_init w0))) \<le> DAY_LIMIT \<and>
      second_counter (fst (snd (api_calls n (RateLimiter_init w0)))) =
        int (calls_in_period second_timestamp
               (second_timestamp (fst (snd (api_calls n (RateLimiter_init w0)))))
               (api_log n (RateLimiter_init w0))) \<and>
      minute_counter (fst (snd (api_calls n (RateLimiter_init w0)))) =
        int (calls_in_period minute_timestamp
               (minute_timestamp (fst (snd (api_calls n (RateLimiter_init w0)))))
               (api_log n (RateLimiter_init w0))) \<and>
      day_counter (fst (snd (api_calls n (RateLimiter_init w0)))) =
        int (calls_in_period day_timestamp
               (day_timestamp (fst (snd (api_calls n (RateLimiter_init w0)))))
               (api_log n (RateLimiter_init w0))) \<and>
      steps_by SECOND_US (map (\<lambda>c. second_timestamp (snd c)) (api_log n (RateLimiter_init w0))) \<and>
      steps_by MINUTE_US (map (\<lambda>c. minute_timestamp (snd c)) (api_log n (RateLimiter_init w0))) \<and>
      steps_by DAY_US (map (\<lambda>c. day_timestamp (snd c)) (api_log n (RateLimiter_init w0)))) \<and>
   ((\<forall>k. clock w0 k \<le> clock w0 (Suc k)) \<longrightarrow>
      list_all after_start (api_log n (RateLimiter_init w0)))"
proof -
  obtain rl0 w1 where i: "RateLimiter_init w0 = (rl0, w1)" by (cases "RateLimiter_init w0")
  have c0: "second_counter rl0 = 0" "minute_counter rl0 = 0" "day_counter rl0 = 0"
    using init_counters[of w0] i by simp_all
  have old: "second_counter (fst (wait_if_needed rl w)) < SECOND_LIMIT \<and>
   minute_counter (fst (wait_if_needed rl w)) < MINUTE_LIMIT \<and>
   day_counter (fst (wait_if_needed rl w)) < DAY_LIMIT \<and>
   within_limits (increment (fst (wait_if_needed rl w))) \<and>
   within_limits (fst (snd (api_calls n (RateLimiter_init w0))))"
    by (simp add: wait_second_bound wait_minute_bound wait_day_bound admit_record_within
        api_calls_within init_within)
  have times: "map fst (api_log n (RateLimiter_init w0)) = fst (api_calls n (RateLimiter_init w0))"
    by (rule log_times)
  have periods: "int (calls_in_period second_timestamp s (api_log n (rl0, w1))) \<le> SECOND_LIMIT \<and>
      int (calls_in_period minute_timestamp s (api_log n (rl0, w1))) \<le> MINUTE_LIMIT \<and>
      int (calls_in_period day_timestamp s (api_log n (rl0, w1))) \<le> DAY_LIMIT \<and>
      second_counter (fst (snd (api_calls n (rl0, w1)))) =
        int (calls_in_period second_timestamp
               (second_timestamp (fst (snd (api_calls n (rl0, w1))))) (api_log n (rl0, w1))) \<and>
      minute_counter (fst (snd (api_calls n (rl0, w1)))) =
        int (calls_in_period minute_timestamp
               (minute_timestamp (fst (snd (api_calls n (rl0, w1))))) (api_log n (rl0, w1))) \<and>
      day_counter (fst (snd (api_calls n (rl0, w1)))) =
        int (calls_in_period day_timestamp
               (day_timestamp (fst (snd (api_calls n (rl0, w1))))) (api_log n (rl0, w1))) \<and>
      steps_by SECOND_US (map (\<lambda>c. second_timestamp (snd c)) (api_log n (rl0, w1))) \<and>
      steps_by MINUTE_US (map (\<lambda>c. minute_timestamp (snd c)) (api_log n (rl0, w1))) \<and>
      steps_by DAY_US (map (\<lambda>c. day_timestamp (snd c)) (api_log n (rl0, w1)))"
    if run: "honest_run n (rl0, w1)"
  proof -
    note s = period_facts[of SECOND_US SECOND_LIMIT second_timestamp second_counter,
        OF step_second increment_fields(1,2) _ _ run c0(1)]
    note m = period_facts[of MINUTE_US MINUTE_LIMIT minute_timestamp minute_counter,
        OF step_minute increment_fields(3,4) _ _ run c0(2)]
    note d = period_facts[of DAY_US DAY_LIMIT day_timestamp day_counter,
        OF step_day increment_fields(5,6) _ _ run c0(3)]
    have p: "0 < SECOND_US" "0 < SECOND_LIMIT" "0 < MINUTE_US" "0 < MINUTE_LIMIT"
      "0 < DAY_US" "0 < DAY_LIMIT" by (simp_all add: limit_defs)
    show ?thesis
      using s(1)[OF _ p(1,2)] s(2)[OF _ p(1,2)] s(3)[OF _ p(1,2)]
        m(1)[OF _ p(3,4)] m(2)[OF _ p(3,4)] m(3)[OF _ p(3,4)]
        d(1)[OF _ p(5,6)] d(2)[OF _ p(5,6)] d(3)[OF _ p(5,6)]
      by simp
  qed
  have starts: "list_all after_start (api_log n (rl0, w1))"
    if mono: "\<forall>k. clock w0 k \<le> clock w0 (Suc k)"
  proof -
    have c: "clock w1 = clock w0" using init_clock[of w0] i by simp
    have nf: "not_future rl0 w1" using init_not_future[of w0] mono i by simp
    show ?thesis by (rule log_after_start[OF _ nf]) (simp add: c mono)
  qed
  show ?thesis
    using old times periods starts unfolding i by blast
qed

theorem counts_within_limits_witness:
  "honest_run 7 (RateLimiter_init paced_world) \<and>
   (\<forall>k. clock paced_world k \<le> clock paced_world (Suc k)) \<and>
   events (snd (snd (api_calls 7 (RateLimiter_init paced_world))))
     = [Print (RateSecondWait 200000), Sleep 200000] \<and>
   calls_in_period second_timestamp burst_t0 (api_log 7 (RateLimiter_init paced_world)) = 5 \<and>
   calls_in_period second_timestamp (burst_t0 + 1300020)
     (api_log 7 (RateLimiter_init paced_world)) = 2 \<and>
   int (calls_in_period second_timestamp burst_t0 (api_log 7 (RateLimiter_init paced_world)))
     \<le> SECOND_LIMIT \<and>
   second_counter (fst (snd (api_calls 7 (RateLimiter_init paced_world)))) = 2 \<and>
   steps_by SECOND_US
     (map (\<lambda>c. second_timestamp (snd c)) (api_log 7 (RateLimiter_init paced_world))) \<and>
   list_all after_start (api_log 7 (RateLimiter_init paced_world))"
proof -
  have h1: "honest_run 7 (RateLimiter_init paced_world)" by code_simp
  have h2: "\<forall>k. clock paced_world k \<le> clock paced_world (Suc k)"
    by (simp add: paced_world_def quiet_world_def paced_clock_def)
  have e: "events (snd (snd (api_calls 7 (RateLimiter_init paced_world))))
     = [Print (RateSecondWait 200000), Sleep 200000]"
    "calls_in_period second_timestamp burst_t0 (api_log 7 (RateLimiter_init paced_world)) = 5"
    "calls_in_period second_timestamp (burst_t0 + 1300020)
       (api_log 7 (RateLimiter_init paced_world)) = 2"
    "second_counter (fst (snd (api_calls 7 (RateLimiter_init paced_world)))) = 2"
    by code_simp+
  from counts_within_limits [of full_rl full_world 7 paced_world burst_t0]
  show ?thesis using h1 h2 e by simp
qed

end
